theory Spec2Isabelle
  imports Complex_Main
begin

section \<open>Text primitives of the interpreter\<close>

text \<open>
  The script \<^verbatim>\<open>visualize_stability.py\<close> reads a text file, keeps the lines of the form
  \<^verbatim>\<open>number,number\<close>, fits a line through the points and reports a verdict.

  A Python \<^verbatim>\<open>str\<close> is modelled as a \<^typ>\<open>string\<close>: a list of characters, each a code point
  below 256. On that range the class \<^verbatim>\<open>\d\<close> of the \<^verbatim>\<open>re\<close> module is exactly the ten ASCII
  digits, and \<^verbatim>\<open>str.strip()\<close> removes the twelve characters listed in \<open>isspace\<close>.
\<close>

definition LF :: char where
  "LF = CHR 0x0A"

definition CR :: char where
  "CR = CHR 0x0D"

definition isspace :: "char \<Rightarrow> bool" where
  "isspace c =
     (let n = (of_char c :: nat)
      in (9 \<le> n \<and> n \<le> 13) \<or> (28 \<le> n \<and> n \<le> 32) \<or> n = 133 \<or> n = 160)"

definition isdecimal :: "char \<Rightarrow> bool" where
  "isdecimal c = (let n = (of_char c :: nat) in 48 \<le> n \<and> n \<le> 57)"

definition digit_value :: "char \<Rightarrow> int" where
  "digit_value c = int (of_char c) - 48"

text \<open>\<^verbatim>\<open>line.strip()\<close>: leading and trailing whitespace removed.\<close>

definition strip :: "string \<Rightarrow> string" where
  "strip s = rev (dropWhile isspace (rev (dropWhile isspace s)))"

text \<open>
  \<^verbatim>\<open>line.split(',')\<close>: the pieces between the separators; there is always at least one
  piece.
\<close>

fun split_on :: "char \<Rightarrow> string \<Rightarrow> string list" where
  "split_on sep [] = [[]]"
| "split_on sep (c # cs) =
     (if c = sep then [] # split_on sep cs
      else (case split_on sep cs of
              [] \<Rightarrow> [[c]]
            | p # ps \<Rightarrow> (c # p) # ps))"

text \<open>
  A file opened with \<^verbatim>\<open>open(filename, 'r')\<close> is read with universal newlines: \<^verbatim>\<open>\r\n\<close> and a
  lone \<^verbatim>\<open>\r\<close> arrive as \<^verbatim>\<open>\n\<close>. Iterating over the file yields the lines, each with its
  closing \<^verbatim>\<open>\n\<close>, the last one without it when the text does not end in a newline.
\<close>

fun universal_newlines :: "string \<Rightarrow> string" where
  "universal_newlines [] = []"
| "universal_newlines [c] = (if c = CR then [LF] else [c])"
| "universal_newlines (c # d # cs) =
     (if c = CR \<and> d = LF then LF # universal_newlines cs
      else if c = CR then LF # universal_newlines (d # cs)
      else c # universal_newlines (d # cs))"

fun file_lines :: "string \<Rightarrow> string list" where
  "file_lines [] = []"
| "file_lines (c # cs) =
     (if c = LF then [LF] # file_lines cs
      else (case file_lines cs of
              [] \<Rightarrow> [[c]]
            | l # ls \<Rightarrow> (c # l) # ls))"

subsection \<open>Errors\<close>

datatype error =
    FileNotFoundError
  | IndexError
  | ValueError_int_literal
  | ValueError_int_max_str_digits
  | ValueError_max_empty
  | InsufficientDataError
  | DegenerateRegressionError

text \<open>
  \<^verbatim>\<open>int(s)\<close> on a run of decimal digits, read from the left in base ten; Python's integers
  are unbounded. The interpreter first counts the digits the text starts with and raises
  \<open>ValueError\<close> (\<^verbatim>\<open>Exceeds the limit (4300 digits) for integer string conversion\<close>) when
  there are more than \<^verbatim>\<open>sys.int_info.default_max_str_digits\<close> of them, leading zeros
  included; the script leaves that limit at its default. Any text that is not a run of
  digits is answered \<open>ValueError\<close> (invalid literal) here: the interpreter accepts a little
  more (a sign, blanks around the number, single underscores between digits), but no such
  text can pass the pattern of \<open>parse_data\<close>, the only caller.
\<close>

definition int_max_str_digits :: nat where
  "int_max_str_digits = 4300"

fun int_digits :: "int \<Rightarrow> string \<Rightarrow> error + int" where
  "int_digits acc [] = Inr acc"
| "int_digits acc (c # cs) =
     (if isdecimal c then int_digits (10 * acc + digit_value c) cs
      else Inl ValueError_int_literal)"

definition py_int :: "string \<Rightarrow> error + int" where
  "py_int s =
     (if s = [] then Inl ValueError_int_literal
      else if int_max_str_digits < length (takeWhile isdecimal s)
        then Inl ValueError_int_max_str_digits
      else int_digits 0 s)"

text \<open>\<^verbatim>\<open>parts[i]\<close> for a non-negative literal index: \<open>IndexError\<close> past the end.\<close>

definition py_index :: "'a list \<Rightarrow> nat \<Rightarrow> error + 'a" where
  "py_index xs i = (if i < length xs then Inr (xs ! i) else Inl IndexError)"

text \<open>\<^verbatim>\<open>max(weights)\<close>: \<open>ValueError\<close> on an empty list.\<close>

definition py_max :: "int list \<Rightarrow> error + int" where
  "py_max xs = (case xs of [] \<Rightarrow> Inl ValueError_max_empty | y # ys \<Rightarrow> Inr (fold max ys y))"

subsection \<open>The regular expression\<close>

text \<open>
  \<^verbatim>\<open>re.match(r'^\d+,\d+$', line)\<close>. The pattern is a sequence of items; \<open>re_run\<close> is the
  backtracking matcher on such sequences. Its flag says whether the position is the start
  of the subject: \<^verbatim>\<open>^\<close> matches only there, and \<^verbatim>\<open>$\<close> matches at the end of the subject or
  just before a newline that ends it. \<^verbatim>\<open>re.match\<close> anchors the match at the start and does
  not ask it to reach the end.
\<close>

datatype atom = Digit | Lit char

datatype item = Bol | Eol | One atom | OneOrMore atom

fun atom_ok :: "atom \<Rightarrow> char \<Rightarrow> bool" where
  "atom_ok Digit c = isdecimal c"
| "atom_ok (Lit d) c = (c = d)"

fun re_run :: "item list \<Rightarrow> bool \<Rightarrow> string \<Rightarrow> bool" where
  "re_run [] b s = True"
| "re_run (Bol # r) b s = (b \<and> re_run r b s)"
| "re_run (Eol # r) b s = ((s = [] \<or> s = [LF]) \<and> re_run r b s)"
| "re_run (One a # r) b [] = False"
| "re_run (One a # r) b (c # cs) = (atom_ok a c \<and> re_run r False cs)"
| "re_run (OneOrMore a # r) b [] = False"
| "re_run (OneOrMore a # r) b (c # cs) =
     (atom_ok a c \<and> (re_run (OneOrMore a # r) False cs \<or> re_run r False cs))"

definition re_match :: "item list \<Rightarrow> string \<Rightarrow> bool" where
  "re_match p s = re_run p True s"

definition pair_pattern :: "item list" where
  "pair_pattern = [Bol, OneOrMore Digit, One (Lit (CHR '','')), OneOrMore Digit, Eol]"

section \<open>parse_data\<close>

text \<open>
  The body of the \<^verbatim>\<open>for\<close> loop, with the two lists it appends to. An exception leaves the
  loop at once.
\<close>

fun parse_loop :: "string list \<Rightarrow> int list \<Rightarrow> int list \<Rightarrow> error + (int list \<times> int list)" where
  "parse_loop [] steps weights = Inr (steps, weights)"
| "parse_loop (raw # rest) steps weights =
     (let line = strip raw in
      if re_match pair_pattern line then
        (let parts = split_on (CHR '','') line in
         case py_index parts 0 of
           Inl e \<Rightarrow> Inl e
         | Inr p0 \<Rightarrow>
           (case py_int p0 of
              Inl e \<Rightarrow> Inl e
            | Inr s \<Rightarrow>
              (case py_index parts 1 of
                 Inl e \<Rightarrow> Inl e
               | Inr p1 \<Rightarrow>
                 (case py_int p1 of
                    Inl e \<Rightarrow> Inl e
                  | Inr w \<Rightarrow> parse_loop rest (steps @ [s]) (weights @ [w])))))
      else parse_loop rest steps weights)"

text \<open>
  The file system is a map from paths to the text of the file; opening a path that is not
  there raises \<open>FileNotFoundError\<close>.
\<close>

definition parse_data :: "(string \<rightharpoonup> string) \<Rightarrow> string \<Rightarrow> error + (int list \<times> int list)" where
  "parse_data fs filename =
     (case fs filename of
        None \<Rightarrow> Inl FileNotFoundError
      | Some txt \<Rightarrow> parse_loop (file_lines (universal_newlines txt)) [] [])"

section \<open>main\<close>

text \<open>
  What a run does to the outside world is recorded as a trace, in program order: a line
  printed to standard output, a call to the plotting library, the call to the regression.
  A printed line is its text; where a float is formatted into it, the float is kept as a
  value beside the text that precedes it, and its rendering is not modelled.

  A float is the real number it stands for, or NaN (not a number); rounding and the
  infinities are not modelled. Arithmetic with NaN gives NaN, and every comparison with
  NaN is false.
\<close>

datatype pyfloat = Float real | NaN

fun fl_abs :: "pyfloat \<Rightarrow> pyfloat" where
  "fl_abs (Float x) = Float \<bar>x\<bar>"
| "fl_abs NaN = NaN"

fun fl_less :: "pyfloat \<Rightarrow> pyfloat \<Rightarrow> bool" where
  "fl_less (Float x) (Float y) = (x < y)"
| "fl_less NaN y = False"
| "fl_less (Float x) NaN = False"

fun fl_add :: "pyfloat \<Rightarrow> pyfloat \<Rightarrow> pyfloat" where
  "fl_add (Float x) (Float y) = Float (x + y)"
| "fl_add NaN y = NaN"
| "fl_add (Float x) NaN = NaN"

fun fl_mul :: "pyfloat \<Rightarrow> pyfloat \<Rightarrow> pyfloat" where
  "fl_mul (Float x) (Float y) = Float (x * y)"
| "fl_mul NaN y = NaN"
| "fl_mul (Float x) NaN = NaN"

datatype printed = Str string | StrFloat string pyfloat

datatype event =
    Print printed
  | Figure
  | PlotSeries "int list" "int list"
  | Scatter "int list" "int list"
  | Regress "int list" "int list"
  | PlotTrend "int list" "pyfloat list" pyfloat
  | Title string
  | Xlabel string
  | Ylabel string
  | Legend
  | Grid
  | PltText real int string string
  | Savefig string

text \<open>
  How a run ends: the end of \<^verbatim>\<open>main\<close> is reached (exit code 0), \<^verbatim>\<open>sys.exit(n)\<close> is called,
  or an exception nobody catches ends the process.
\<close>

datatype status = Returned | SysExit nat | Uncaught error

text \<open>The decimal rendering of \<^verbatim>\<open>len(steps)\<close> inside the f-string.\<close>

definition digit_char :: "nat \<Rightarrow> char" where
  "digit_char d = ''0123456789'' ! d"

function show_nat :: "nat \<Rightarrow> string" where
  "show_nat n = (if n < 10 then [digit_char n] else show_nat (n div 10) @ [digit_char (n mod 10)])"
  by pat_completeness auto
termination
  by (relation "measure id") auto

declare show_nat.simps [simp del]

definition output_file :: string where
  "output_file = ''error_stability_proof.png''"

text \<open>
  The \<^verbatim>\<open>if\<close> under \<^verbatim>\<open># Hypothesis Check\<close>: the label drawn on the chart with \<^verbatim>\<open>plt.text\<close> (its
  position, its text and its colour) and the same text printed. Both branches evaluate
  \<^verbatim>\<open>max(weights)\<close>. The literal \<^verbatim>\<open>0.01\<close> is read as the decimal fraction; the double it
  denotes is slightly larger, with no double between the two, so the comparison gives the
  interpreter's answer on every double; on NaN it is false.
\<close>

definition hypothesis_check :: "int list \<Rightarrow> int list \<Rightarrow> pyfloat \<Rightarrow> error + event list" where
  "hypothesis_check steps weights slope =
     (if fl_less (fl_abs slope) (Float 0.01) then
        (case py_max weights of
           Inl e \<Rightarrow> Inl e
         | Inr m \<Rightarrow>
             Inr [PltText (real (length steps) / 2) (m + 1) ''CONCLUSION: STABLE RECURSION'' ''green'',
                  Print (Str ''CONCLUSION: STABLE RECURSION'')])
      else
        (case py_max weights of
           Inl e \<Rightarrow> Inl e
         | Inr m \<Rightarrow>
             Inr [PltText (real (length steps) / 2) (m + 1) ''WARNING: ERROR GROWTH DETECTED'' ''red'',
                  Print (Str ''WARNING: ERROR GROWTH DETECTED'')]))"

text \<open>
  \<^verbatim>\<open>linregress\<close> comes from a library that is not part of the repository, so \<open>main\<close> takes it
  as a parameter: a function from the two lists to an exception or to the fitted slope and
  intercept (the three further values it returns are bound by the script and never read).
\<close>

type_synonym regression = "int list \<Rightarrow> int list \<Rightarrow> error + (pyfloat \<times> pyfloat)"

definition main :: "regression \<Rightarrow> (string \<rightharpoonup> string) \<Rightarrow> event list \<times> status" where
  "main linregress fs =
     (let tr0 = [Print (Str ''Parsing data...'')] in
      case parse_data fs ''raw_output.txt'' of
        Inl e \<Rightarrow> (tr0, Uncaught e)
      | Inr (steps, weights) \<Rightarrow>
          if steps = [] then
            (tr0 @ [Print (Str ''No CSV data found in raw_output.txt'')], SysExit 1)
          else
            (let tr1 = tr0 @
                   [Print (Str (''Found '' @ show_nat (length steps) @ '' data points.'')),
                    Figure,
                    PlotSeries steps weights,
                    Scatter steps weights,
                    Regress steps weights] in
             case linregress steps weights of
               Inl e \<Rightarrow> (tr1, Uncaught e)
             | Inr (slope, intercept) \<Rightarrow>
                 (let trend_y = map (\<lambda>x. fl_add (fl_mul slope (Float (real_of_int x))) intercept) steps;
                      tr2 = tr1 @
                        [Print (StrFloat ''Slope: '' slope),
                         Print (StrFloat ''Intercept: '' intercept),
                         PlotTrend steps trend_y slope,
                         Title ''Stability of Slack Variable u (Recursion Error)'',
                         Xlabel ''Recursion Step'',
                         Ylabel ''Hamming Weight'',
                         Legend,
                         Grid] in
                  case hypothesis_check steps weights slope of
                    Inl e \<Rightarrow> (tr2, Uncaught e)
                  | Inr evs \<Rightarrow>
                      (tr2 @ evs @
                         [Savefig output_file,
                          Print (Str (''Saved chart to '' @ output_file))],
                       Returned))))"

subsection \<open>The regression, from the specification\<close>

text \<open>
  Modelled from the spec: \<^verbatim>\<open>scipy.stats.linregress\<close>, which the script imports and which is
  not in the repository. The specification of the trend estimator asks for two lists of
  the same length, at least two points long, and fails otherwise; a step sequence without
  variance divides by zero in the slope formula. The fit is the closed form of ordinary
  least squares: slope = covariance(x, y) / variance(x), intercept = mean(y) - slope *
  mean(x). The arithmetic is exact here, not floating point.
\<close>

definition mean :: "int list \<Rightarrow> real" where
  "mean xs = real_of_int (sum_list xs) / real (length xs)"

definition covariance :: "int list \<Rightarrow> int list \<Rightarrow> real" where
  "covariance xs ys =
     sum_list (map2 (\<lambda>x y. (real_of_int x - mean xs) * (real_of_int y - mean ys)) xs ys)
       / real (length xs)"

definition spec_linregress :: regression where
  "spec_linregress xs ys =
     (if length xs = length ys \<and> 2 \<le> length xs then
        (if covariance xs xs = 0 then Inl DegenerateRegressionError
         else (let slope = covariance xs ys / covariance xs xs
               in Inr (Float slope, Float (mean ys - slope * mean xs))))
      else Inl InsufficientDataError)"

section \<open>What the specification talks about\<close>

text \<open>
  The pattern in the specification's words: one or more digits, a comma, one or more
  digits, and nothing else.
\<close>

definition digits_comma_digits :: "string \<Rightarrow> bool" where
  "digits_comma_digits l =
     (let a = takeWhile isdecimal l; rest = dropWhile isdecimal l
      in a \<noteq> [] \<and>
         (case rest of
            [] \<Rightarrow> False
          | c # b \<Rightarrow> c = CHR '','' \<and> b \<noteq> [] \<and> list_all isdecimal b))"

text \<open>The number a run of digits denotes, and the sample (step, weight) a line denotes.\<close>

definition decimal_value :: "string \<Rightarrow> int" where
  "decimal_value s = foldl (\<lambda>acc c. 10 * acc + digit_value c) 0 s"

definition sample_of :: "string \<Rightarrow> int \<times> int" where
  "sample_of l =
     (decimal_value (takeWhile isdecimal l), decimal_value (drop 1 (dropWhile isdecimal l)))"

text \<open>
  A line whose two digit runs are both within the limit that \<^verbatim>\<open>int\<close> puts on the number of
  digits.
\<close>

definition digit_runs_within_limit :: "string \<Rightarrow> bool" where
  "digit_runs_within_limit l =
     (length (takeWhile isdecimal l) \<le> int_max_str_digits
      \<and> length (drop 1 (dropWhile isdecimal l)) \<le> int_max_str_digits)"

text \<open>The lines of a file after trimming, in file order, and those among them that match.\<close>

definition stripped_lines :: "string \<Rightarrow> string list" where
  "stripped_lines txt = map strip (file_lines (universal_newlines txt))"

definition matching_lines :: "string \<Rightarrow> string list" where
  "matching_lines txt = filter digits_comma_digits (stripped_lines txt)"

text \<open>
  Observations of a trace: the lines printed, the verdicts announced on standard output
  (STABLE for the text \<^verbatim>\<open>CONCLUSION: STABLE RECURSION\<close>, GROWTH_DETECTED for
  \<^verbatim>\<open>WARNING: ERROR GROWTH DETECTED\<close>), and the positions of the labels drawn on the chart.
\<close>

fun stdout :: "event list \<Rightarrow> printed list" where
  "stdout [] = []"
| "stdout (Print p # es) = p # stdout es"
| "stdout (e # es) = stdout es"

datatype verdict = STABLE | GROWTH_DETECTED

fun verdict_of_line :: "printed \<Rightarrow> verdict list" where
  "verdict_of_line (Str t) =
     (if t = ''CONCLUSION: STABLE RECURSION'' then [STABLE]
      else if t = ''WARNING: ERROR GROWTH DETECTED'' then [GROWTH_DETECTED]
      else [])"
| "verdict_of_line (StrFloat t x) = []"

definition verdicts :: "event list \<Rightarrow> verdict list" where
  "verdicts tr = concat (map verdict_of_line (stdout tr))"

fun label_positions :: "event list \<Rightarrow> (real \<times> int) list" where
  "label_positions [] = []"
| "label_positions (PltText x y t c # es) = (x, y) # label_positions es"
| "label_positions (e # es) = label_positions es"

text \<open>The horizontal midpoint of the step range: midway between the least and the greatest step.\<close>

definition step_range_midpoint :: "int list \<Rightarrow> real" where
  "step_range_midpoint steps = (real_of_int (Min (set steps)) + real_of_int (Max (set steps))) / 2"

section \<open>Facts about the pattern\<close>

lemma isdecimal_not_comma: "isdecimal c \<Longrightarrow> c \<noteq> CHR '',''"
  by (auto simp: isdecimal_def)

lemma isdecimal_not_LF: "isdecimal c \<Longrightarrow> c \<noteq> LF"
  by (auto simp: isdecimal_def LF_def)

lemma isspace_LF: "isspace LF"
  by (simp add: isspace_def LF_def)

lemma digits_comma_digits_iff:
  "digits_comma_digits l \<longleftrightarrow>
     (\<exists>a b. l = a @ CHR '','' # b \<and> a \<noteq> [] \<and> b \<noteq> [] \<and> list_all isdecimal a \<and> list_all isdecimal b)"
proof
  assume "digits_comma_digits l"
  then obtain b where r: "takeWhile isdecimal l \<noteq> []" "dropWhile isdecimal l = CHR '','' # b"
      "b \<noteq> []" "list_all isdecimal b"
    by (auto simp: digits_comma_digits_def Let_def split: list.splits)
  have "l = takeWhile isdecimal l @ CHR '','' # b"
    using r(2) takeWhile_dropWhile_id [of isdecimal l] by simp
  moreover have "list_all isdecimal (takeWhile isdecimal l)"
    by (simp add: list_all_iff) (meson set_takeWhileD)
  ultimately show "\<exists>a b. l = a @ CHR '','' # b \<and> a \<noteq> [] \<and> b \<noteq> [] \<and> list_all isdecimal a \<and> list_all isdecimal b"
    using r by blast
next
  assume "\<exists>a b. l = a @ CHR '','' # b \<and> a \<noteq> [] \<and> b \<noteq> [] \<and> list_all isdecimal a \<and> list_all isdecimal b"
  then obtain a b where l: "l = a @ CHR '','' # b" "a \<noteq> []" "b \<noteq> []"
      "list_all isdecimal a" "list_all isdecimal b"
    by blast
  have nc: "\<not> isdecimal (CHR '','')"
    using isdecimal_not_comma by blast
  have "takeWhile isdecimal l = a" "dropWhile isdecimal l = CHR '','' # b"
    using l(1,4) nc by (simp_all add: list_all_iff takeWhile_append2 dropWhile_append2)
  then show "digits_comma_digits l"
    using l by (simp add: digits_comma_digits_def)
qed

lemma re_run_digits_eol:
  "re_run [OneOrMore Digit, Eol] b t \<longleftrightarrow>
     t \<noteq> [] \<and> (list_all isdecimal t \<or> (\<exists>u. t = u @ [LF] \<and> u \<noteq> [] \<and> list_all isdecimal u))"
proof (induction t arbitrary: b)
  case Nil
  then show ?case by simp
next
  case (Cons c cs)
  show ?case
  proof (cases "isdecimal c")
    case False
    then show ?thesis
      by (auto simp: Cons_eq_append_conv)
  next
    case True
    then show ?thesis
      using Cons.IH [of False] isdecimal_not_LF [of c]
      by (auto simp: Cons_eq_append_conv)
  qed
qed

lemma re_run_lit:
  "re_run (One (Lit d) # r) b s \<longleftrightarrow> (\<exists>t. s = d # t \<and> re_run r False t)"
  by (cases s) auto

lemma re_run_digits_comma:
  "re_run (OneOrMore Digit # One (Lit (CHR '','')) # r) b s \<longleftrightarrow>
     (\<exists>a t. s = a @ CHR '','' # t \<and> a \<noteq> [] \<and> list_all isdecimal a \<and> re_run r False t)"
proof (induction s arbitrary: b)
  case Nil
  then show ?case by simp
next
  case (Cons c cs)
  show ?case
  proof (cases "isdecimal c")
    case False
    then show ?thesis
      by (auto simp: Cons_eq_append_conv)
  next
    case True
    let ?more = "\<exists>a t. cs = a @ CHR '','' # t \<and> a \<noteq> [] \<and> list_all isdecimal a \<and> re_run r False t"
    let ?stop = "\<exists>t. cs = CHR '','' # t \<and> re_run r False t"
    have step: "re_run (OneOrMore Digit # One (Lit (CHR '','')) # r) b (c # cs) \<longleftrightarrow> ?more \<or> ?stop"
      using True Cons.IH [of False] by (simp add: re_run_lit)
    have "(\<exists>a t. c # cs = a @ CHR '','' # t \<and> a \<noteq> [] \<and> list_all isdecimal a \<and> re_run r False t)
            \<longleftrightarrow> ?more \<or> ?stop"
    proof
      assume "\<exists>a t. c # cs = a @ CHR '','' # t \<and> a \<noteq> [] \<and> list_all isdecimal a \<and> re_run r False t"
      then obtain a t where h: "c # cs = a @ CHR '','' # t" "a \<noteq> []" "list_all isdecimal a"
          "re_run r False t"
        by blast
      then obtain a' where a: "a = c # a'"
        by (cases a) auto
      show "?more \<or> ?stop"
      proof (cases a')
        case Nil
        then show ?thesis using h a by auto
      next
        case (Cons x xs)
        then have "cs = a' @ CHR '','' # t \<and> a' \<noteq> [] \<and> list_all isdecimal a'"
          using h a by auto
        then show ?thesis using h(4) by blast
      qed
    next
      assume "?more \<or> ?stop"
      then show "\<exists>a t. c # cs = a @ CHR '','' # t \<and> a \<noteq> [] \<and> list_all isdecimal a \<and> re_run r False t"
      proof
        assume ?more
        then obtain a t where "cs = a @ CHR '','' # t" "list_all isdecimal a" "re_run r False t"
          by blast
        then have "c # cs = (c # a) @ CHR '','' # t \<and> c # a \<noteq> [] \<and> list_all isdecimal (c # a)
            \<and> re_run r False t"
          using True by simp
        then show ?thesis by blast
      next
        assume ?stop
        then obtain t where "cs = CHR '','' # t" "re_run r False t"
          by blast
        then have "c # cs = [c] @ CHR '','' # t \<and> [c] \<noteq> [] \<and> list_all isdecimal [c]
            \<and> re_run r False t"
          using True by simp
        then show ?thesis by blast
      qed
    qed
    with step show ?thesis by simp
  qed
qed

lemma strip_no_trailing_space: "strip raw = u @ [c] \<Longrightarrow> \<not> isspace c"
proof -
  assume h: "strip raw = u @ [c]"
  then have "dropWhile isspace (rev (dropWhile isspace raw)) = c # rev u"
    by (metis strip_def rev.simps(2) rev_rev_ident rev_append rev_singleton_conv append_Cons append_Nil)
  then show ?thesis
    by (metis hd_dropWhile list.sel(1) list.distinct(1))
qed

lemma re_match_pair_pattern:
  "re_match pair_pattern s \<longleftrightarrow>
     digits_comma_digits s \<or> (\<exists>u. s = u @ [LF] \<and> digits_comma_digits u)"
proof -
  have "re_match pair_pattern s \<longleftrightarrow>
      (\<exists>a t. s = a @ CHR '','' # t \<and> a \<noteq> [] \<and> list_all isdecimal a \<and> t \<noteq> [] \<and>
         (list_all isdecimal t \<or> (\<exists>u. t = u @ [LF] \<and> u \<noteq> [] \<and> list_all isdecimal u)))"
    by (simp add: re_match_def pair_pattern_def re_run_digits_comma re_run_digits_eol)
  also have "\<dots> \<longleftrightarrow> digits_comma_digits s \<or> (\<exists>u. s = u @ [LF] \<and> digits_comma_digits u)"
    unfolding digits_comma_digits_iff
    apply (rule iffI)
     apply (elim exE conjE disjE)
      apply blast
     apply (rule disjI2)
     apply (metis append_Cons append_assoc)
    apply (elim exE conjE disjE)
     apply blast
    apply (metis append_Cons append_assoc snoc_eq_iff_butlast list.distinct(1))
    done
  finally show ?thesis .
qed

lemma re_match_strip: "re_match pair_pattern (strip raw) \<longleftrightarrow> digits_comma_digits (strip raw)"
  using re_match_pair_pattern [of "strip raw"] strip_no_trailing_space [of raw _ LF] isspace_LF
  by blast

section \<open>Facts about the loop of parse_data\<close>

lemma split_on_absent: "sep \<notin> set s \<Longrightarrow> split_on sep s = [s]"
  by (induction s) auto

lemma split_on_once:
  "sep \<notin> set a \<Longrightarrow> sep \<notin> set b \<Longrightarrow> split_on sep (a @ sep # b) = [a, b]"
  by (induction a) (auto simp: split_on_absent)

lemma int_digits_decimal:
  "list_all isdecimal s \<Longrightarrow>
     int_digits acc s = Inr (foldl (\<lambda>acc c. 10 * acc + digit_value c) acc s)"
  by (induction s arbitrary: acc) auto

lemma digits_no_comma: "list_all isdecimal s \<Longrightarrow> CHR '','' \<notin> set s"
  using isdecimal_not_comma by (auto simp: list_all_iff)

lemma split_matching_line:
  assumes "digits_comma_digits l"
  shows "split_on (CHR '','') l = [takeWhile isdecimal l, drop 1 (dropWhile isdecimal l)]
    \<and> takeWhile isdecimal l \<noteq> [] \<and> list_all isdecimal (takeWhile isdecimal l)
    \<and> drop 1 (dropWhile isdecimal l) \<noteq> [] \<and> list_all isdecimal (drop 1 (dropWhile isdecimal l))"
proof -
  obtain a b where l: "l = a @ CHR '','' # b" "a \<noteq> []" "b \<noteq> []"
      "list_all isdecimal a" "list_all isdecimal b"
    using assms digits_comma_digits_iff by blast
  have nc: "\<not> isdecimal (CHR '','')"
    using isdecimal_not_comma by blast
  have "takeWhile isdecimal l = a" "dropWhile isdecimal l = CHR '','' # b"
    using l(1,4) nc by (simp_all add: list_all_iff)
  then show ?thesis
    using l split_on_once [of "CHR '',''" a b] digits_no_comma by simp
qed

lemma takeWhile_all: "list_all P s \<Longrightarrow> takeWhile P s = s"
  by (simp add: list_all_iff)

lemma py_int_decimal:
  assumes "s \<noteq> []" and "list_all isdecimal s"
  shows "py_int s =
     (if length s \<le> int_max_str_digits then Inr (decimal_value s)
      else Inl ValueError_int_max_str_digits)"
  using assms
  by (simp add: py_int_def decimal_value_def int_digits_decimal takeWhile_all)

lemma parse_loop_step_match:
  assumes "digits_comma_digits (strip raw)" and "digit_runs_within_limit (strip raw)"
  shows "parse_loop (raw # rest) steps weights =
     parse_loop rest (steps @ [fst (sample_of (strip raw))]) (weights @ [snd (sample_of (strip raw))])"
  using split_matching_line [OF assms(1)] assms
  by (simp add: re_match_strip py_index_def py_int_decimal sample_of_def Let_def
      digit_runs_within_limit_def)

lemma parse_loop_step_limit:
  assumes "digits_comma_digits (strip raw)" and "\<not> digit_runs_within_limit (strip raw)"
  shows "parse_loop (raw # rest) steps weights = Inl ValueError_int_max_str_digits"
  using split_matching_line [OF assms(1)] assms
  by (auto simp: re_match_strip py_index_def py_int_decimal Let_def digit_runs_within_limit_def)

lemma parse_loop_step_skip:
  assumes "\<not> digits_comma_digits (strip raw)"
  shows "parse_loop (raw # rest) steps weights = parse_loop rest steps weights"
  using assms by (simp add: re_match_strip)

lemma parse_loop_eq:
  "parse_loop ls steps weights =
     (if list_all digit_runs_within_limit (filter digits_comma_digits (map strip ls))
      then Inr (steps @ map (fst \<circ> sample_of) (filter digits_comma_digits (map strip ls)),
                weights @ map (snd \<circ> sample_of) (filter digits_comma_digits (map strip ls)))
      else Inl ValueError_int_max_str_digits)"
proof (induction ls arbitrary: steps weights)
  case Nil
  then show ?case by simp
next
  case (Cons raw rest)
  show ?case
  proof (cases "digits_comma_digits (strip raw)")
    case False
    then show ?thesis
      using Cons.IH by (simp add: parse_loop_step_skip del: parse_loop.simps)
  next
    case True
    show ?thesis
    proof (cases "digit_runs_within_limit (strip raw)")
      case within: True
      then show ?thesis
        using True Cons.IH by (simp add: parse_loop_step_match del: parse_loop.simps)
    next
      case False
      then show ?thesis
        using True by (simp add: parse_loop_step_limit del: parse_loop.simps)
    qed
  qed
qed

lemma parse_data_eq:
  "fs filename = Some txt \<Longrightarrow>
     parse_data fs filename =
       (if list_all digit_runs_within_limit (matching_lines txt)
        then Inr (map (fst \<circ> sample_of) (matching_lines txt),
                  map (snd \<circ> sample_of) (matching_lines txt))
        else Inl ValueError_int_max_str_digits)"
  by (simp add: parse_data_def parse_loop_eq matching_lines_def stripped_lines_def)

lemma parse_data_returned:
  assumes "parse_data fs filename = Inr (steps, weights)"
  obtains content where "fs filename = Some content"
    and "list_all digit_runs_within_limit (matching_lines content)"
    and "steps = map (fst \<circ> sample_of) (matching_lines content)"
    and "weights = map (snd \<circ> sample_of) (matching_lines content)"
proof (cases "fs filename")
  case None
  then show ?thesis using assms by (simp add: parse_data_def)
next
  case (Some content)
  then show ?thesis
    using assms that [of content] parse_data_eq [of fs filename content]
    by (auto split: if_splits)
qed

lemma parse_data_raised:
  assumes "parse_data fs filename = Inl e"
  shows "(e = FileNotFoundError \<and> fs filename = None)
    \<or> (e = ValueError_int_max_str_digits
        \<and> (\<exists>content. fs filename = Some content
              \<and> \<not> list_all digit_runs_within_limit (matching_lines content)))"
proof (cases "fs filename")
  case None
  then show ?thesis using assms by (simp add: parse_data_def)
next
  case (Some content)
  then show ?thesis
    using assms parse_data_eq [of fs filename content] by (auto split: if_splits)
qed



lemma matching_lines_re_match:
  "matching_lines txt = filter (re_match pair_pattern) (stripped_lines txt)"
  unfolding matching_lines_def stripped_lines_def
  by (rule filter_cong) (auto simp: re_match_strip)

lemma sample_of_parts:
  assumes "a \<noteq> []" "list_all isdecimal a"
  shows "sample_of (a @ CHR '','' # b) = (decimal_value a, decimal_value b)"
proof -
  have nc: "\<not> isdecimal (CHR '','')"
    using isdecimal_not_comma by blast
  have "takeWhile isdecimal (a @ CHR '','' # b) = a"
    "dropWhile isdecimal (a @ CHR '','' # b) = CHR '','' # b"
    using assms nc by (simp_all add: list_all_iff)
  then show ?thesis
    by (simp add: sample_of_def)
qed

subsection \<open>A file of one line that needs no trimming\<close>

lemma universal_newlines_no_CR: "CR \<notin> set s \<Longrightarrow> universal_newlines s = s"
  by (induction s rule: universal_newlines.induct) auto

lemma file_lines_no_LF: "LF \<notin> set s \<Longrightarrow> s \<noteq> [] \<Longrightarrow> file_lines s = [s]"
proof (induction s)
  case Nil
  then show ?case by simp
next
  case (Cons c cs)
  then show ?case by (cases cs) auto
qed

lemma strip_no_space:
  assumes "s \<noteq> []" and "\<not> isspace (hd s)" and "\<not> isspace (last s)"
  shows "strip s = s"
proof -
  have "dropWhile isspace s = s"
    using assms(1,2) by (cases s) auto
  moreover have "dropWhile isspace (rev s) = rev s"
    using assms(1,3) by (cases "rev s") (auto simp: hd_rev [symmetric])
  ultimately show ?thesis
    by (simp add: strip_def)
qed

lemma stripped_lines_single:
  assumes "CR \<notin> set s" and "LF \<notin> set s" and "s \<noteq> []"
    and "\<not> isspace (hd s)" and "\<not> isspace (last s)"
  shows "stripped_lines s = [s]"
  using assms
  by (simp add: stripped_lines_def universal_newlines_no_CR file_lines_no_LF strip_no_space)

lemma isdecimal_not_space: "isdecimal c \<Longrightarrow> \<not> isspace c"
  by (auto simp: isdecimal_def isspace_def Let_def)

lemma isdecimal_not_CR: "isdecimal c \<Longrightarrow> c \<noteq> CR"
  by (auto simp: isdecimal_def CR_def)

lemma pair_line:
  assumes "a \<noteq> []" and "list_all isdecimal a" and "b \<noteq> []" and "list_all isdecimal b"
  shows "digits_comma_digits (a @ CHR '','' # b)"
    and "stripped_lines (a @ CHR '','' # b) = [a @ CHR '','' # b]"
    and "digit_runs_within_limit (a @ CHR '','' # b)
          = (length a \<le> int_max_str_digits \<and> length b \<le> int_max_str_digits)"
    and "strip (a @ CHR '','' # b) = a @ CHR '','' # b"
proof -
  let ?l = "a @ CHR '','' # b"
  show m: "digits_comma_digits ?l"
    using assms digits_comma_digits_iff by blast
  have "hd ?l = hd a" "last ?l = last b" "hd a \<in> set a" "last b \<in> set b"
    using assms(1,3) by simp_all
  then have ends: "\<not> isspace (hd ?l)" "\<not> isspace (last ?l)"
    using assms(2,4) isdecimal_not_space by (auto simp: list_all_iff)
  have "CR \<notin> set ?l" "LF \<notin> set ?l"
    using assms(2,4) isdecimal_not_CR isdecimal_not_LF
    by (auto simp: list_all_iff CR_def LF_def)
  then show "stripped_lines ?l = [?l]"
    using ends by (simp add: stripped_lines_single)
  have nc: "\<not> isdecimal (CHR '','')"
    using isdecimal_not_comma by blast
  have "takeWhile isdecimal ?l = a" "dropWhile isdecimal ?l = CHR '','' # b"
    using assms(2) nc by (simp_all add: list_all_iff)
  then show "digit_runs_within_limit ?l
          = (length a \<le> int_max_str_digits \<and> length b \<le> int_max_str_digits)"
    by (simp add: digit_runs_within_limit_def)
  show "strip ?l = ?l"
    using ends by (simp add: strip_no_space)
qed

lemma pair_line_file:
  assumes "a \<noteq> []" and "list_all isdecimal a" and "b \<noteq> []" and "list_all isdecimal b"
    and "fs filename = Some (a @ CHR '','' # b)"
  shows "matching_lines (a @ CHR '','' # b) = [a @ CHR '','' # b]"
    and "parse_data fs filename =
      (if length a \<le> int_max_str_digits \<and> length b \<le> int_max_str_digits
       then Inr ([decimal_value a], [decimal_value b])
       else Inl ValueError_int_max_str_digits)"
proof -
  show m: "matching_lines (a @ CHR '','' # b) = [a @ CHR '','' # b]"
    using pair_line(1,2) [OF assms(1-4)] by (simp add: matching_lines_def)
  show "parse_data fs filename =
      (if length a \<le> int_max_str_digits \<and> length b \<le> int_max_str_digits
       then Inr ([decimal_value a], [decimal_value b])
       else Inl ValueError_int_max_str_digits)"
    using parse_data_eq [of fs filename "a @ CHR '','' # b", OF assms(5)] pair_line(3) [OF assms(1-4)] sample_of_parts [OF assms(1,2)]
    unfolding m by simp
qed

section \<open>Facts about main\<close>

lemma py_max_nonempty:
  assumes "weights \<noteq> []"
  shows "py_max weights = Inr (Max (set weights))"
proof (cases weights)
  case Nil
  then show ?thesis using assms by simp
next
  case (Cons y ys)
  then show ?thesis
    using Max.set_eq_fold [of y ys] by (simp add: py_max_def)
qed

lemma parse_data_lengths:
  assumes "parse_data fs filename = Inr (steps, weights)"
  shows "length weights = length steps"
  using assms by (rule parse_data_returned) simp

lemma parse_data_weights_nonempty:
  "parse_data fs filename = Inr (steps, weights) \<Longrightarrow> steps \<noteq> [] \<Longrightarrow> weights \<noteq> []"
  using parse_data_lengths by fastforce

lemma below_threshold:
  "fl_less (fl_abs slope) (Float (1 / 100))
     = (case slope of Float x \<Rightarrow> \<bar>x\<bar> < 1 / 100 | NaN \<Rightarrow> False)"
  by (cases slope) simp_all

lemma hypothesis_check_nonempty:
  assumes "weights \<noteq> []"
  shows "hypothesis_check steps weights slope =
     Inr [PltText (real (length steps) / 2) (Max (set weights) + 1)
            (if fl_less (fl_abs slope) (Float (1 / 100)) then ''CONCLUSION: STABLE RECURSION''
             else ''WARNING: ERROR GROWTH DETECTED'')
            (if fl_less (fl_abs slope) (Float (1 / 100)) then ''green'' else ''red''),
          Print (Str (if fl_less (fl_abs slope) (Float (1 / 100))
             then ''CONCLUSION: STABLE RECURSION''
             else ''WARNING: ERROR GROWTH DETECTED''))]"
  using assms by (simp add: hypothesis_check_def py_max_nonempty)

lemma main_no_data:
  assumes "parse_data fs ''raw_output.txt'' = Inr ([], weights)"
  shows "main linregress fs =
     ([Print (Str ''Parsing data...''), Print (Str ''No CSV data found in raw_output.txt'')],
      SysExit 1)"
  using assms by (simp add: main_def)

lemma main_parse_raises:
  assumes "parse_data fs ''raw_output.txt'' = Inl e"
  shows "main linregress fs = ([Print (Str ''Parsing data...'')], Uncaught e)"
  using assms by (simp add: main_def)

lemma main_regression_raises:
  assumes "parse_data fs ''raw_output.txt'' = Inr (steps, weights)" and "steps \<noteq> []"
    and "linregress steps weights = Inl e"
  shows "main linregress fs =
     ([Print (Str ''Parsing data...''),
       Print (Str (''Found '' @ show_nat (length steps) @ '' data points.'')),
       Figure, PlotSeries steps weights, Scatter steps weights, Regress steps weights],
      Uncaught e)"
  using assms by (simp add: main_def)

lemma main_completes:
  assumes "parse_data fs ''raw_output.txt'' = Inr (steps, weights)" and "steps \<noteq> []"
    and "linregress steps weights = Inr (slope, intercept)"
  shows "main linregress fs =
     ([Print (Str ''Parsing data...''),
       Print (Str (''Found '' @ show_nat (length steps) @ '' data points.'')),
       Figure, PlotSeries steps weights, Scatter steps weights, Regress steps weights,
       Print (StrFloat ''Slope: '' slope),
       Print (StrFloat ''Intercept: '' intercept),
       PlotTrend steps
         (map (\<lambda>x. fl_add (fl_mul slope (Float (real_of_int x))) intercept) steps) slope,
       Title ''Stability of Slack Variable u (Recursion Error)'',
       Xlabel ''Recursion Step'', Ylabel ''Hamming Weight'', Legend, Grid,
       PltText (real (length steps) / 2) (Max (set weights) + 1)
            (if fl_less (fl_abs slope) (Float (1 / 100)) then ''CONCLUSION: STABLE RECURSION''
             else ''WARNING: ERROR GROWTH DETECTED'')
            (if fl_less (fl_abs slope) (Float (1 / 100)) then ''green'' else ''red''),
       Print (Str (if fl_less (fl_abs slope) (Float (1 / 100))
             then ''CONCLUSION: STABLE RECURSION''
             else ''WARNING: ERROR GROWTH DETECTED'')),
       Savefig ''error_stability_proof.png'',
       Print (Str ''Saved chart to error_stability_proof.png'')],
      Returned)"
proof -
  have "weights \<noteq> []"
    using assms(1,2) by (rule parse_data_weights_nonempty)
  then show ?thesis
    using assms by (simp add: main_def hypothesis_check_nonempty output_file_def)
qed

lemma main_returned_cases:
  assumes "main linregress fs = (tr, Returned)"
  obtains steps weights slope intercept where
    "parse_data fs ''raw_output.txt'' = Inr (steps, weights)" "steps \<noteq> []"
    "linregress steps weights = Inr (slope, intercept)"
proof (cases "parse_data fs ''raw_output.txt''")
  case (Inl e)
  then show ?thesis using assms main_parse_raises [OF Inl, of linregress] by simp
next
  case (Inr p)
  obtain steps weights where p: "p = (steps, weights)" by (cases p)
  show ?thesis
  proof (cases "steps = []")
    case True
    then show ?thesis
      using assms Inr p main_no_data [of fs weights linregress] by simp
  next
    case False
    show ?thesis
    proof (cases "linregress steps weights")
      case (Inl e)
      then show ?thesis
        using assms Inr p False main_regression_raises [of fs steps weights linregress e] by simp
    next
      case r: (Inr q)
      obtain slope intercept where "q = (slope, intercept)" by (cases q)
      then show ?thesis
        using that [of steps weights slope intercept] Inr p False r by simp
    qed
  qed
qed

lemma show_nat_digit: "n < 10 \<Longrightarrow> show_nat n = [digit_char n]"
  by (simp add: show_nat.simps)

lemma show_nat_4: "show_nat (Suc (Suc (Suc (Suc 0)))) = ''4''"
  by (simp add: show_nat_digit digit_char_def)

lemma file_A_parse:
  "fs ''raw_output.txt'' = Some ''5,10\<newline>6,10\<newline>7,10\<newline>8,10\<newline>'' \<Longrightarrow>
     parse_data fs ''raw_output.txt'' = Inr ([5, 6, 7, 8], [10, 10, 10, 10])"
proof -
  have "parse_loop (file_lines (universal_newlines ''5,10\<newline>6,10\<newline>7,10\<newline>8,10\<newline>'')) [] []
      = Inr ([5, 6, 7, 8], [10, 10, 10, 10])"
    by code_simp
  then show "fs ''raw_output.txt'' = Some ''5,10\<newline>6,10\<newline>7,10\<newline>8,10\<newline>'' \<Longrightarrow>
     parse_data fs ''raw_output.txt'' = Inr ([5, 6, 7, 8], [10, 10, 10, 10])"
    by (simp add: parse_data_def)
qed

lemma file_A_fit: "spec_linregress [5, 6, 7, 8] [10, 10, 10, 10] = Inr (Float 0, Float 10)"
  by (simp add: spec_linregress_def covariance_def mean_def)

lemma file_B_parse:
  "fs ''raw_output.txt'' = Some ''1,1\<newline>2,2\<newline>3,3\<newline>4,4\<newline>'' \<Longrightarrow>
     parse_data fs ''raw_output.txt'' = Inr ([1, 2, 3, 4], [1, 2, 3, 4])"
proof -
  have "parse_loop (file_lines (universal_newlines ''1,1\<newline>2,2\<newline>3,3\<newline>4,4\<newline>'')) [] []
      = Inr ([1, 2, 3, 4], [1, 2, 3, 4])"
    by code_simp
  then show "fs ''raw_output.txt'' = Some ''1,1\<newline>2,2\<newline>3,3\<newline>4,4\<newline>'' \<Longrightarrow>
     parse_data fs ''raw_output.txt'' = Inr ([1, 2, 3, 4], [1, 2, 3, 4])"
    by (simp add: parse_data_def)
qed

lemma file_B_fit: "spec_linregress [1, 2, 3, 4] [1, 2, 3, 4] = Inr (Float 1, Float 0)"
  by (simp add: spec_linregress_def covariance_def mean_def)

section \<open>The claims\<close>

text \<open>
  C1, as amended. For every input file in which no matching line holds a run of more than
  4300 digits, \<open>parse_data\<close> returns exactly the integer pairs read from the trimmed lines
  that match the pattern, in file order, and the number of steps equals the number of
  matching lines and the number of weights. Where a matching line holds a longer run of
  digits, \<^verbatim>\<open>int\<close> raises \<open>ValueError\<close> and \<open>parse_data\<close> returns nothing. In both cases
  the lines the regular expression keeps are the lines that are one or more digits, a
  comma, one or more digits and nothing else; every other line contributes nothing.
\<close>

theorem parse_data_keeps_matching_lines:
  assumes "fs filename = Some txt"
  shows "parse_data fs filename =
           (if list_all digit_runs_within_limit (matching_lines txt)
            then Inr (map (fst \<circ> sample_of) (matching_lines txt),
                      map (snd \<circ> sample_of) (matching_lines txt))
            else Inl ValueError_int_max_str_digits)
    \<and> matching_lines txt = filter (re_match pair_pattern) (stripped_lines txt)
    \<and> (\<forall>l \<in> set (matching_lines txt).
          \<exists>a b. l = a @ CHR '','' # b \<and> a \<noteq> [] \<and> b \<noteq> []
            \<and> list_all isdecimal a \<and> list_all isdecimal b
            \<and> sample_of l = (decimal_value a, decimal_value b))
    \<and> (case parse_data fs filename of
          Inl e \<Rightarrow> e = ValueError_int_max_str_digits
        | Inr (steps, weights) \<Rightarrow>
            length steps = length (matching_lines txt) \<and> length weights = length steps)"
proof -
  have eq: "parse_data fs filename =
           (if list_all digit_runs_within_limit (matching_lines txt)
            then Inr (map (fst \<circ> sample_of) (matching_lines txt),
                      map (snd \<circ> sample_of) (matching_lines txt))
            else Inl ValueError_int_max_str_digits)"
    using assms by (rule parse_data_eq)
  have shape: "\<exists>a b. l = a @ CHR '','' # b \<and> a \<noteq> [] \<and> b \<noteq> []
            \<and> list_all isdecimal a \<and> list_all isdecimal b
            \<and> sample_of l = (decimal_value a, decimal_value b)"
    if "l \<in> set (matching_lines txt)" for l
  proof -
    from that have "digits_comma_digits l"
      by (simp add: matching_lines_def)
    then obtain a b where "l = a @ CHR '','' # b" "a \<noteq> []" "b \<noteq> []"
        "list_all isdecimal a" "list_all isdecimal b"
      using digits_comma_digits_iff by blast
    then show ?thesis
      using sample_of_parts [of a b] by blast
  qed
  have "case parse_data fs filename of
          Inl e \<Rightarrow> e = ValueError_int_max_str_digits
        | Inr (steps, weights) \<Rightarrow>
            length steps = length (matching_lines txt) \<and> length weights = length steps"
    unfolding eq by simp
  then show ?thesis
    using eq shape matching_lines_re_match by blast
qed

theorem parse_data_keeps_matching_lines_witness:
  "[''raw_output.txt'' \<mapsto> ''step,weight\<newline> 1,2 \<newline>-1,2\<newline>30,047''] ''raw_output.txt''
       = Some ''step,weight\<newline> 1,2 \<newline>-1,2\<newline>30,047''
   \<and> matching_lines ''step,weight\<newline> 1,2 \<newline>-1,2\<newline>30,047'' = [''1,2'', ''30,047'']
   \<and> list_all digit_runs_within_limit [''1,2'', ''30,047'']
   \<and> parse_data [''raw_output.txt'' \<mapsto> ''step,weight\<newline> 1,2 \<newline>-1,2\<newline>30,047''] ''raw_output.txt''
       = Inr ([1, 30], [2, 47])"
proof -
  let ?txt = "''step,weight\<newline> 1,2 \<newline>-1,2\<newline>30,047''"
  let ?fs = "[''raw_output.txt'' \<mapsto> ?txt]"
  have h: "?fs ''raw_output.txt'' = Some ?txt"
    by simp
  have m: "matching_lines ?txt = [''1,2'', ''30,047'']"
    by code_simp
  have w: "list_all digit_runs_within_limit [''1,2'', ''30,047'']"
    by (simp add: digit_runs_within_limit_def int_max_str_digits_def isdecimal_def)
  have v: "map sample_of [''1,2'', ''30,047''] = [(1, 2), (30, 47)]"
    by code_simp
  have "parse_data ?fs ''raw_output.txt'' =
           (if list_all digit_runs_within_limit (matching_lines ?txt)
            then Inr (map (fst \<circ> sample_of) (matching_lines ?txt),
                      map (snd \<circ> sample_of) (matching_lines ?txt))
            else Inl ValueError_int_max_str_digits)"
    using parse_data_keeps_matching_lines [of ?fs "''raw_output.txt''" ?txt, OF h]
    by (rule conjunct1)
  then have "parse_data ?fs ''raw_output.txt'' = Inr ([1, 30], [2, 47])"
    using v w unfolding m by simp
  with h m w show ?thesis by simp
qed

text \<open>
  A file of one line, 4301 times the digit 1, a comma and the digit 1: the line matches
  the pattern, and \<open>parse_data\<close> raises instead of returning the pair.
\<close>

theorem parse_data_keeps_matching_lines_counterexample:
  "matching_lines (replicate 4301 (CHR ''1'') @ '',1'') = [replicate 4301 (CHR ''1'') @ '',1'']
   \<and> parse_data [''raw_output.txt'' \<mapsto> replicate 4301 (CHR ''1'') @ '',1''] ''raw_output.txt''
        = Inl ValueError_int_max_str_digits"
proof -
  let ?a = "replicate 4301 (CHR ''1'')"
  have a: "?a \<noteq> []" "list_all isdecimal ?a"
    by (simp_all add: list_all_iff isdecimal_def)
  have b: "''1'' \<noteq> []" "list_all isdecimal ''1''"
    by (simp_all add: isdecimal_def)
  have f: "[''raw_output.txt'' \<mapsto> ?a @ CHR '','' # ''1''] ''raw_output.txt''
      = Some (?a @ CHR '','' # ''1'')"
    by simp
  show ?thesis
    using pair_line_file [of ?a "''1''" "[''raw_output.txt'' \<mapsto> ?a @ CHR '','' # ''1'']"
        "''raw_output.txt''", OF a b f]
    by (simp add: int_max_str_digits_def)
qed

text \<open>
  C2. For every slope the regression returns, the verdict announced is STABLE if and only if
  the magnitude of the slope is strictly below 0.01, and GROWTH_DETECTED otherwise (also
  for NaN, whose comparison is false); the run then ends normally. The two lists are those
  \<open>parse_data\<close> returned, the first not empty.
\<close>

theorem verdict_threshold:
  assumes "parse_data fs ''raw_output.txt'' = Inr (steps, weights)" and "steps \<noteq> []"
    and "linregress steps weights = Inr (slope, intercept)"
  shows "(\<exists>evs. hypothesis_check steps weights slope = Inr evs
            \<and> verdicts evs =
                [case slope of
                   Float x \<Rightarrow> (if \<bar>x\<bar> < 1 / 100 then STABLE else GROWTH_DETECTED)
                 | NaN \<Rightarrow> GROWTH_DETECTED])
    \<and> verdicts (fst (main linregress fs)) =
        [case slope of
           Float x \<Rightarrow> (if \<bar>x\<bar> < 1 / 100 then STABLE else GROWTH_DETECTED)
         | NaN \<Rightarrow> GROWTH_DETECTED]
    \<and> snd (main linregress fs) = Returned"
proof -
  have "weights \<noteq> []"
    using assms(1,2) by (rule parse_data_weights_nonempty)
  then have "\<exists>evs. hypothesis_check steps weights slope = Inr evs
            \<and> verdicts evs =
                [case slope of
                   Float x \<Rightarrow> (if \<bar>x\<bar> < 1 / 100 then STABLE else GROWTH_DETECTED)
                 | NaN \<Rightarrow> GROWTH_DETECTED]"
    by (simp add: hypothesis_check_nonempty verdicts_def below_threshold split: pyfloat.split)
  moreover have "verdicts (fst (main linregress fs)) =
        [case slope of
           Float x \<Rightarrow> (if \<bar>x\<bar> < 1 / 100 then STABLE else GROWTH_DETECTED)
         | NaN \<Rightarrow> GROWTH_DETECTED]"
    by (simp add: main_completes [of fs steps weights linregress slope intercept, OF assms]
        verdicts_def below_threshold split: pyfloat.split)
  moreover have "snd (main linregress fs) = Returned"
    by (simp add: main_completes [of fs steps weights linregress slope intercept, OF assms])
  ultimately show ?thesis by blast
qed

theorem verdict_threshold_witness:
  "parse_data [''raw_output.txt'' \<mapsto> ''0,7\<newline>1,7''] ''raw_output.txt'' = Inr ([0, 1], [7, 7])
   \<and> verdicts (fst (main (\<lambda>xs ys. Inr (Float (1 / 100), Float 7))
        [''raw_output.txt'' \<mapsto> ''0,7\<newline>1,7''])) = [GROWTH_DETECTED]
   \<and> verdicts (fst (main (\<lambda>xs ys. Inr (Float (- (1 / 100)), Float 7))
        [''raw_output.txt'' \<mapsto> ''0,7\<newline>1,7''])) = [GROWTH_DETECTED]
   \<and> verdicts (fst (main (\<lambda>xs ys. Inr (Float (99 / 10000), Float 7))
        [''raw_output.txt'' \<mapsto> ''0,7\<newline>1,7''])) = [STABLE]
   \<and> verdicts (fst (main (\<lambda>xs ys. Inr (NaN, NaN))
        [''raw_output.txt'' \<mapsto> ''0,7\<newline>1,7''])) = [GROWTH_DETECTED]"
proof -
  let ?fs = "[''raw_output.txt'' \<mapsto> ''0,7\<newline>1,7'']"
  have p: "parse_data ?fs ''raw_output.txt'' = Inr ([0, 1], [7, 7])"
    by code_simp
  have n: "[0, 1 :: int] \<noteq> []"
    by simp
  have "verdicts (fst (main (\<lambda>xs ys. Inr (Float (1 / 100), Float 7)) ?fs)) = [GROWTH_DETECTED]"
    using verdict_threshold [of ?fs "[0, 1]" "[7, 7]" "\<lambda>xs ys. Inr (Float (1 / 100), Float 7)"
        "Float (1 / 100)" "Float 7", OF p n]
    by simp
  moreover
  have "verdicts (fst (main (\<lambda>xs ys. Inr (Float (- (1 / 100)), Float 7)) ?fs)) = [GROWTH_DETECTED]"
    using verdict_threshold [of ?fs "[0, 1]" "[7, 7]" "\<lambda>xs ys. Inr (Float (- (1 / 100)), Float 7)"
        "Float (- (1 / 100))" "Float 7", OF p n]
    by simp
  moreover
  have "verdicts (fst (main (\<lambda>xs ys. Inr (Float (99 / 10000), Float 7)) ?fs)) = [STABLE]"
    using verdict_threshold [of ?fs "[0, 1]" "[7, 7]" "\<lambda>xs ys. Inr (Float (99 / 10000), Float 7)"
        "Float (99 / 10000)" "Float 7", OF p n]
    by simp
  moreover
  have "verdicts (fst (main (\<lambda>xs ys. Inr (NaN, NaN)) ?fs)) = [GROWTH_DETECTED]"
    using verdict_threshold [of ?fs "[0, 1]" "[7, 7]" "\<lambda>xs ys. Inr (NaN, NaN)" NaN NaN, OF p n]
    by simp
  ultimately show ?thesis
    using p by blast
qed

text \<open>
  C3. When the input file exists and none of its lines matches the pattern, \<open>main\<close> prints
  the parsing notice and the message \<^verbatim>\<open>No CSV data found in raw_output.txt\<close>, then calls
  \<^verbatim>\<open>sys.exit(1)\<close>: the trace holds nothing else, so the regression is not called and no
  image is written. It is the only handled error: whenever a run ends in \<^verbatim>\<open>sys.exit\<close>, the
  code is 1 and the file exists without a matching line.
\<close>

theorem no_data_exit:
  "(fs ''raw_output.txt'' = Some txt \<and> filter (re_match pair_pattern) (stripped_lines txt) = []
      \<longrightarrow> main linregress fs =
            ([Print (Str ''Parsing data...''), Print (Str ''No CSV data found in raw_output.txt'')],
             SysExit 1))
   \<and> (snd (main linregress fs) = SysExit c
      \<longrightarrow> c = 1 \<and> (\<exists>content. fs ''raw_output.txt'' = Some content
                 \<and> filter (re_match pair_pattern) (stripped_lines content) = []))"
proof (rule conjI; rule impI)
  assume "fs ''raw_output.txt'' = Some txt \<and> filter (re_match pair_pattern) (stripped_lines txt) = []"
  then have "parse_data fs ''raw_output.txt'' = Inr ([], [])"
    using parse_data_eq [of fs "''raw_output.txt''" "txt"] by (simp add: matching_lines_re_match)
  then show "main linregress fs =
            ([Print (Str ''Parsing data...''), Print (Str ''No CSV data found in raw_output.txt'')],
             SysExit 1)"
    by (rule main_no_data)
next
  assume ex: "snd (main linregress fs) = SysExit c"
  show "c = 1 \<and> (\<exists>content. fs ''raw_output.txt'' = Some content
                 \<and> filter (re_match pair_pattern) (stripped_lines content) = [])"
  proof (cases "parse_data fs ''raw_output.txt''")
    case (Inl e)
    then show ?thesis
      using ex main_parse_raises [of fs e linregress] by simp
  next
    case (Inr q)
    obtain steps weights where q: "q = (steps, weights)" by (cases q)
    have p: "parse_data fs ''raw_output.txt'' = Inr (steps, weights)"
      using Inr q by simp
    from p obtain content where c: "fs ''raw_output.txt'' = Some content"
        "steps = map (fst \<circ> sample_of) (matching_lines content)"
      by (rule parse_data_returned)
    show ?thesis
    proof (cases "steps = []")
      case True
      then show ?thesis
        using ex p c main_no_data [of fs weights linregress]
        by (simp add: matching_lines_re_match)
    next
      case False
      show ?thesis
      proof (cases "linregress steps weights")
        case (Inl e)
        then show ?thesis
          using ex main_regression_raises [of fs steps weights linregress e, OF p False] by simp
      next
        case r: (Inr v)
        obtain slope intercept where "v = (slope, intercept)" by (cases v)
        then show ?thesis
          using ex r main_completes [of fs steps weights linregress slope intercept, OF p False]
          by simp
      qed
    qed
  qed
qed

theorem no_data_exit_witness:
  "[''raw_output.txt'' \<mapsto> ''hello\<newline>world\<newline>-1,2\<newline>1.5,3\<newline>''] ''raw_output.txt''
       = Some ''hello\<newline>world\<newline>-1,2\<newline>1.5,3\<newline>''
   \<and> filter (re_match pair_pattern) (stripped_lines ''hello\<newline>world\<newline>-1,2\<newline>1.5,3\<newline>'') = []
   \<and> main spec_linregress [''raw_output.txt'' \<mapsto> ''hello\<newline>world\<newline>-1,2\<newline>1.5,3\<newline>''] =
        ([Print (Str ''Parsing data...''), Print (Str ''No CSV data found in raw_output.txt'')],
         SysExit 1)
   \<and> snd (main spec_linregress [''raw_output.txt'' \<mapsto> ''hello\<newline>world\<newline>-1,2\<newline>1.5,3\<newline>''])
        = SysExit 1"
proof -
  let ?txt = "''hello\<newline>world\<newline>-1,2\<newline>1.5,3\<newline>''"
  let ?fs = "[''raw_output.txt'' \<mapsto> ?txt]"
  have h1: "?fs ''raw_output.txt'' = Some ?txt"
    by simp
  have h2: "filter (re_match pair_pattern) (stripped_lines ?txt) = []"
    by code_simp
  have m: "main spec_linregress ?fs =
        ([Print (Str ''Parsing data...''), Print (Str ''No CSV data found in raw_output.txt'')],
         SysExit 1)"
    using no_data_exit [of ?fs ?txt spec_linregress 1] h1 h2 by blast
  then have "snd (main spec_linregress ?fs) = SysExit 1"
    by simp
  with h1 h2 m show ?thesis by blast
qed

text \<open>
  C4, as amended. Every run that reaches the end of \<open>main\<close> has extracted at least one
  point and has printed exactly six lines, in this order: the parsing notice, the count of
  points found, the slope, the intercept, the verdict text, and the path of the output
  file. The verdict text comes before the path.
\<close>

theorem stdout_order:
  assumes "main linregress fs = (tr, Returned)"
  shows "\<exists>steps weights slope intercept.
      parse_data fs ''raw_output.txt'' = Inr (steps, weights) \<and> steps \<noteq> []
    \<and> linregress steps weights = Inr (slope, intercept)
    \<and> stdout tr =
        [Str ''Parsing data...'',
         Str (''Found '' @ show_nat (length steps) @ '' data points.''),
         StrFloat ''Slope: '' slope,
         StrFloat ''Intercept: '' intercept,
         Str (case slope of
                Float x \<Rightarrow> (if \<bar>x\<bar> < 1 / 100 then ''CONCLUSION: STABLE RECURSION''
                            else ''WARNING: ERROR GROWTH DETECTED'')
              | NaN \<Rightarrow> ''WARNING: ERROR GROWTH DETECTED''),
         Str ''Saved chart to error_stability_proof.png'']"
proof -
  from assms obtain steps weights slope intercept where
    h: "parse_data fs ''raw_output.txt'' = Inr (steps, weights)" "steps \<noteq> []"
       "linregress steps weights = Inr (slope, intercept)"
    by (rule main_returned_cases)
  have "stdout (fst (main linregress fs)) =
        [Str ''Parsing data...'',
         Str (''Found '' @ show_nat (length steps) @ '' data points.''),
         StrFloat ''Slope: '' slope,
         StrFloat ''Intercept: '' intercept,
         Str (case slope of
                Float x \<Rightarrow> (if \<bar>x\<bar> < 1 / 100 then ''CONCLUSION: STABLE RECURSION''
                            else ''WARNING: ERROR GROWTH DETECTED'')
              | NaN \<Rightarrow> ''WARNING: ERROR GROWTH DETECTED''),
         Str ''Saved chart to error_stability_proof.png'']"
    by (simp add: main_completes [of fs steps weights linregress slope intercept, OF h]
        below_threshold split: pyfloat.split)
  then show ?thesis
    using h assms by auto
qed

theorem stdout_order_witness:
  "main spec_linregress [''raw_output.txt'' \<mapsto> ''5,10\<newline>6,10\<newline>7,10\<newline>8,10\<newline>'']
     = (fst (main spec_linregress [''raw_output.txt'' \<mapsto> ''5,10\<newline>6,10\<newline>7,10\<newline>8,10\<newline>'']), Returned)
   \<and> stdout (fst (main spec_linregress [''raw_output.txt'' \<mapsto> ''5,10\<newline>6,10\<newline>7,10\<newline>8,10\<newline>''])) =
        [Str ''Parsing data...'',
         Str ''Found 4 data points.'',
         StrFloat ''Slope: '' (Float 0),
         StrFloat ''Intercept: '' (Float 10),
         Str ''CONCLUSION: STABLE RECURSION'',
         Str ''Saved chart to error_stability_proof.png'']"
proof -
  let ?fs = "[''raw_output.txt'' \<mapsto> ''5,10\<newline>6,10\<newline>7,10\<newline>8,10\<newline>'']"
  have p: "parse_data ?fs ''raw_output.txt'' = Inr ([5, 6, 7, 8], [10, 10, 10, 10])"
    by (rule file_A_parse) simp
  have "snd (main spec_linregress ?fs) = Returned"
    by (simp add: main_completes [of ?fs _ _ spec_linregress, OF p _ file_A_fit])
  then have r: "main spec_linregress ?fs = (fst (main spec_linregress ?fs), Returned)"
    by (metis prod.collapse)
  from stdout_order [OF r] show ?thesis
    using r p file_A_fit show_nat_4 by auto
qed

text \<open>
  On the file \<^verbatim>\<open>1,1\n2,2\n3,3\n4,4\n\<close> the run prints the verdict on the fifth line and the
  path of the output file on the sixth, not the other way round.
\<close>

theorem stdout_order_counterexample:
  "snd (main spec_linregress [''raw_output.txt'' \<mapsto> ''1,1\<newline>2,2\<newline>3,3\<newline>4,4\<newline>'']) = Returned
   \<and> stdout (fst (main spec_linregress [''raw_output.txt'' \<mapsto> ''1,1\<newline>2,2\<newline>3,3\<newline>4,4\<newline>''])) =
        [Str ''Parsing data...'',
         Str ''Found 4 data points.'',
         StrFloat ''Slope: '' (Float 1),
         StrFloat ''Intercept: '' (Float 0),
         Str ''WARNING: ERROR GROWTH DETECTED'',
         Str ''Saved chart to error_stability_proof.png'']
   \<and> stdout (fst (main spec_linregress [''raw_output.txt'' \<mapsto> ''1,1\<newline>2,2\<newline>3,3\<newline>4,4\<newline>''])) \<noteq>
        [Str ''Parsing data...'',
         Str ''Found 4 data points.'',
         StrFloat ''Slope: '' (Float 1),
         StrFloat ''Intercept: '' (Float 0),
         Str ''Saved chart to error_stability_proof.png'',
         Str ''WARNING: ERROR GROWTH DETECTED'']"
proof -
  let ?fs = "[''raw_output.txt'' \<mapsto> ''1,1\<newline>2,2\<newline>3,3\<newline>4,4\<newline>'']"
  have p: "parse_data ?fs ''raw_output.txt'' = Inr ([1, 2, 3, 4], [1, 2, 3, 4])"
    by (rule file_B_parse) simp
  show ?thesis
    by (simp add: main_completes [of ?fs _ _ spec_linregress, OF p _ file_B_fit] show_nat_4)
qed

text \<open>
  C5, as amended. On every run that reaches the end of \<open>main\<close>, exactly one label is drawn;
  its horizontal position is half the number of extracted points, \<^verbatim>\<open>len(steps)/2\<close>, and its
  vertical position is one above the greatest weight, \<^verbatim>\<open>max(weights) + 1\<close>.
\<close>

theorem label_position:
  assumes "main linregress fs = (tr, Returned)"
  shows "\<exists>steps weights.
      parse_data fs ''raw_output.txt'' = Inr (steps, weights) \<and> steps \<noteq> [] \<and> weights \<noteq> []
    \<and> label_positions tr = [(real (length steps) / 2, Max (set weights) + 1)]"
proof -
  from assms obtain steps weights slope intercept where
    h: "parse_data fs ''raw_output.txt'' = Inr (steps, weights)" "steps \<noteq> []"
       "linregress steps weights = Inr (slope, intercept)"
    by (rule main_returned_cases)
  have "label_positions (fst (main linregress fs)) =
      [(real (length steps) / 2, Max (set weights) + 1)]"
    by (simp add: main_completes [of fs steps weights linregress slope intercept, OF h])
  then show ?thesis
    using h assms parse_data_weights_nonempty [OF h(1,2)] by auto
qed

theorem label_position_witness:
  "main spec_linregress [''raw_output.txt'' \<mapsto> ''1,1\<newline>2,2\<newline>3,3\<newline>4,4\<newline>'']
     = (fst (main spec_linregress [''raw_output.txt'' \<mapsto> ''1,1\<newline>2,2\<newline>3,3\<newline>4,4\<newline>'']), Returned)
   \<and> label_positions (fst (main spec_linregress [''raw_output.txt'' \<mapsto> ''1,1\<newline>2,2\<newline>3,3\<newline>4,4\<newline>'']))
       = [(2, 5)]"
proof -
  let ?fs = "[''raw_output.txt'' \<mapsto> ''1,1\<newline>2,2\<newline>3,3\<newline>4,4\<newline>'']"
  have p: "parse_data ?fs ''raw_output.txt'' = Inr ([1, 2, 3, 4], [1, 2, 3, 4])"
    by (rule file_B_parse) simp
  have "snd (main spec_linregress ?fs) = Returned"
    by (simp add: main_completes [of ?fs _ _ spec_linregress, OF p _ file_B_fit])
  then have r: "main spec_linregress ?fs = (fst (main spec_linregress ?fs), Returned)"
    by (metis prod.collapse)
  from label_position [OF r] show ?thesis
    using r p by auto
qed

text \<open>
  On the file \<^verbatim>\<open>5,10\n6,10\n7,10\n8,10\n\<close> the label is drawn at x = 2, while the steps
  range from 5 to 8, with midpoint 6.5.
\<close>

theorem label_position_counterexample:
  "snd (main spec_linregress [''raw_output.txt'' \<mapsto> ''5,10\<newline>6,10\<newline>7,10\<newline>8,10\<newline>'']) = Returned
   \<and> parse_data [''raw_output.txt'' \<mapsto> ''5,10\<newline>6,10\<newline>7,10\<newline>8,10\<newline>''] ''raw_output.txt''
        = Inr ([5, 6, 7, 8], [10, 10, 10, 10])
   \<and> label_positions (fst (main spec_linregress [''raw_output.txt'' \<mapsto> ''5,10\<newline>6,10\<newline>7,10\<newline>8,10\<newline>'']))
        = [(2, 11)]
   \<and> step_range_midpoint [5, 6, 7, 8] = 13 / 2
   \<and> label_positions (fst (main spec_linregress [''raw_output.txt'' \<mapsto> ''5,10\<newline>6,10\<newline>7,10\<newline>8,10\<newline>'']))
        \<noteq> [(step_range_midpoint [5, 6, 7, 8], 11)]"
proof -
  let ?fs = "[''raw_output.txt'' \<mapsto> ''5,10\<newline>6,10\<newline>7,10\<newline>8,10\<newline>'']"
  have p: "parse_data ?fs ''raw_output.txt'' = Inr ([5, 6, 7, 8], [10, 10, 10, 10])"
    by (rule file_A_parse) simp
  have "step_range_midpoint [5, 6, 7, 8] = 13 / 2"
    by (simp add: step_range_midpoint_def)
  then show ?thesis
    using p by (simp add: main_completes [of ?fs _ _ spec_linregress, OF p _ file_A_fit])
qed

text \<open>
  C6, as amended. When exactly one line of the input file matches (its digit runs within the
  limit of \<^verbatim>\<open>int\<close>), \<open>main\<close> passes the check for found data: it prints the count, not
  the no-data message, does not call \<^verbatim>\<open>sys.exit\<close>, and calls the regression with that single
  point. The run then ends as that call does. If the regression raises, the run ends with
  its exception and without a verdict; if it returns, \<open>main\<close> announces a verdict
  (GROWTH_DETECTED when the slope is NaN) and reaches its end, exit code 0.
\<close>

theorem single_point_run:
  assumes "fs ''raw_output.txt'' = Some txt"
    and "length (filter (re_match pair_pattern) (stripped_lines txt)) = 1"
    and "list_all digit_runs_within_limit (matching_lines txt)"
  shows "\<exists>s w. parse_data fs ''raw_output.txt'' = Inr ([s], [w])
    \<and> take 6 (fst (main linregress fs)) =
        [Print (Str ''Parsing data...''), Print (Str ''Found 1 data points.''),
         Figure, PlotSeries [s] [w], Scatter [s] [w], Regress [s] [w]]
    \<and> Print (Str ''No CSV data found in raw_output.txt'') \<notin> set (fst (main linregress fs))
    \<and> snd (main linregress fs) \<noteq> SysExit 1
    \<and> (case linregress [s] [w] of
          Inl e \<Rightarrow>
            main linregress fs =
              ([Print (Str ''Parsing data...''), Print (Str ''Found 1 data points.''),
                Figure, PlotSeries [s] [w], Scatter [s] [w], Regress [s] [w]],
               Uncaught e)
            \<and> verdicts (fst (main linregress fs)) = []
        | Inr (slope, intercept) \<Rightarrow>
            snd (main linregress fs) = Returned
            \<and> verdicts (fst (main linregress fs)) =
                [case slope of
                   Float x \<Rightarrow> (if \<bar>x\<bar> < 1 / 100 then STABLE else GROWTH_DETECTED)
                 | NaN \<Rightarrow> GROWTH_DETECTED])"
proof -
  obtain l where l: "matching_lines txt = [l]"
    using assms(2) by (auto simp: matching_lines_re_match length_Suc_conv)
  let ?s = "fst (sample_of l)" and ?w = "snd (sample_of l)"
  let ?tr = "[Print (Str ''Parsing data...''), Print (Str ''Found 1 data points.''),
          Figure, PlotSeries [?s] [?w], Scatter [?s] [?w], Regress [?s] [?w]]"
  have p: "parse_data fs ''raw_output.txt'' = Inr ([?s], [?w])"
    using parse_data_eq [of fs "''raw_output.txt''" "txt"] assms(1,3) l by simp
  have n: "[?s] \<noteq> []"
    by simp
  have one: "show_nat (length [?s]) = ''1''"
    by (simp add: show_nat_digit digit_char_def)
  have rest: "take 6 (fst (main linregress fs)) = ?tr
    \<and> Print (Str ''No CSV data found in raw_output.txt'') \<notin> set (fst (main linregress fs))
    \<and> snd (main linregress fs) \<noteq> SysExit 1
    \<and> (case linregress [?s] [?w] of
          Inl e \<Rightarrow> main linregress fs = (?tr, Uncaught e)
            \<and> verdicts (fst (main linregress fs)) = []
        | Inr (slope, intercept) \<Rightarrow>
            snd (main linregress fs) = Returned
            \<and> verdicts (fst (main linregress fs)) =
                [case slope of
                   Float x \<Rightarrow> (if \<bar>x\<bar> < 1 / 100 then STABLE else GROWTH_DETECTED)
                 | NaN \<Rightarrow> GROWTH_DETECTED])"
  proof (cases "linregress [?s] [?w]")
    case (Inl e)
    have "main linregress fs = (?tr, Uncaught e)"
      using main_regression_raises [of fs "[?s]" "[?w]" linregress e, OF p n Inl] one by simp
    then show ?thesis
      using Inl by (simp add: verdicts_def)
  next
    case (Inr v)
    obtain slope intercept where v: "v = (slope, intercept)" by (cases v)
    have r: "linregress [?s] [?w] = Inr (slope, intercept)"
      using Inr v by simp
    note m = main_completes [of fs "[?s]" "[?w]" linregress slope intercept, OF p n r]
    have "take 6 (fst (main linregress fs)) = ?tr"
      unfolding m using one by simp
    moreover
    have "Print (Str ''No CSV data found in raw_output.txt'') \<notin> set (fst (main linregress fs))"
      unfolding m using one by (simp split: if_splits)
    moreover have "snd (main linregress fs) = Returned"
      unfolding m by simp
    moreover have "verdicts (fst (main linregress fs)) =
                [case slope of
                   Float x \<Rightarrow> (if \<bar>x\<bar> < 1 / 100 then STABLE else GROWTH_DETECTED)
                 | NaN \<Rightarrow> GROWTH_DETECTED]"
      unfolding m by (simp add: verdicts_def below_threshold split: pyfloat.split)
    ultimately show ?thesis
      using r by simp
  qed
  with p show ?thesis by blast
qed

theorem single_point_run_witness:
  "[''raw_output.txt'' \<mapsto> ''hello\<newline>7,3''] ''raw_output.txt'' = Some ''hello\<newline>7,3''
   \<and> length (filter (re_match pair_pattern) (stripped_lines ''hello\<newline>7,3'')) = 1
   \<and> list_all digit_runs_within_limit (matching_lines ''hello\<newline>7,3'')
   \<and> parse_data [''raw_output.txt'' \<mapsto> ''hello\<newline>7,3''] ''raw_output.txt'' = Inr ([7], [3])
   \<and> spec_linregress [7] [3] = Inl InsufficientDataError
   \<and> main spec_linregress [''raw_output.txt'' \<mapsto> ''hello\<newline>7,3''] =
        ([Print (Str ''Parsing data...''), Print (Str ''Found 1 data points.''),
          Figure, PlotSeries [7] [3], Scatter [7] [3], Regress [7] [3]],
         Uncaught InsufficientDataError)
   \<and> snd (main (\<lambda>xs ys. Inr (NaN, NaN)) [''raw_output.txt'' \<mapsto> ''hello\<newline>7,3'']) = Returned
   \<and> verdicts (fst (main (\<lambda>xs ys. Inr (NaN, NaN)) [''raw_output.txt'' \<mapsto> ''hello\<newline>7,3'']))
        = [GROWTH_DETECTED]"
proof -
  let ?txt = "''hello\<newline>7,3''"
  let ?fs = "[''raw_output.txt'' \<mapsto> ?txt]"
  have h1: "?fs ''raw_output.txt'' = Some ?txt"
    by simp
  have h2: "length (filter (re_match pair_pattern) (stripped_lines ?txt)) = 1"
    by code_simp
  have m: "matching_lines ?txt = [''7,3'']"
    by code_simp
  have h3: "list_all digit_runs_within_limit (matching_lines ?txt)"
    unfolding m by (simp add: digit_runs_within_limit_def int_max_str_digits_def isdecimal_def)
  have p: "parse_data ?fs ''raw_output.txt'' = Inr ([7], [3])"
    by code_simp
  have r: "spec_linregress [7] [3] = Inl InsufficientDataError"
    by (simp add: spec_linregress_def)
  from single_point_run [of ?fs ?txt spec_linregress, OF h1 h2 h3]
  have a: "main spec_linregress ?fs =
        ([Print (Str ''Parsing data...''), Print (Str ''Found 1 data points.''),
          Figure, PlotSeries [7] [3], Scatter [7] [3], Regress [7] [3]],
         Uncaught InsufficientDataError)"
    unfolding p using r by auto
  from single_point_run [of ?fs ?txt "\<lambda>xs ys. Inr (NaN, NaN)", OF h1 h2 h3]
  have b: "snd (main (\<lambda>xs ys. Inr (NaN, NaN)) ?fs) = Returned
      \<and> verdicts (fst (main (\<lambda>xs ys. Inr (NaN, NaN)) ?fs)) = [GROWTH_DETECTED]"
    unfolding p by auto
  from h1 h2 h3 p r a b show ?thesis
    by blast
qed

text \<open>
  On the file \<^verbatim>\<open>hello\n7,3\<close>, with a regression that returns NaN for the slope and the
  intercept of the single point (zero divided by zero) instead of raising, the run prints
  the warning verdict, writes the chart and reaches the end of \<open>main\<close>.
\<close>

theorem single_point_run_counterexample:
  "length (filter (re_match pair_pattern) (stripped_lines ''hello\<newline>7,3'')) = 1
   \<and> main (\<lambda>xs ys. Inr (NaN, NaN)) [''raw_output.txt'' \<mapsto> ''hello\<newline>7,3''] =
        ([Print (Str ''Parsing data...''), Print (Str ''Found 1 data points.''),
          Figure, PlotSeries [7] [3], Scatter [7] [3], Regress [7] [3],
          Print (StrFloat ''Slope: '' NaN),
          Print (StrFloat ''Intercept: '' NaN),
          PlotTrend [7] [NaN] NaN,
          Title ''Stability of Slack Variable u (Recursion Error)'',
          Xlabel ''Recursion Step'', Ylabel ''Hamming Weight'', Legend, Grid,
          PltText (1 / 2) 4 ''WARNING: ERROR GROWTH DETECTED'' ''red'',
          Print (Str ''WARNING: ERROR GROWTH DETECTED''),
          Savefig ''error_stability_proof.png'',
          Print (Str ''Saved chart to error_stability_proof.png'')],
         Returned)
   \<and> verdicts (fst (main (\<lambda>xs ys. Inr (NaN, NaN)) [''raw_output.txt'' \<mapsto> ''hello\<newline>7,3'']))
        = [GROWTH_DETECTED]"
proof -
  let ?fs = "[''raw_output.txt'' \<mapsto> ''hello\<newline>7,3'']"
  have h: "length (filter (re_match pair_pattern) (stripped_lines ''hello\<newline>7,3'')) = 1"
    by code_simp
  have p: "parse_data ?fs ''raw_output.txt'' = Inr ([7], [3])"
    by code_simp
  have one: "show_nat (Suc 0) = ''1''"
    by (simp add: show_nat_digit digit_char_def)
  note m = main_completes [of ?fs "[7]" "[3]" "\<lambda>xs ys. Inr (NaN, NaN)" NaN NaN, OF p]
  show ?thesis
    using h one by (simp add: m verdicts_def)
qed

text \<open>
  C7. For the file content \<^verbatim>\<open>1,1\n2,2\n3,3\n4,4\n\<close> the extracted series is
  ([1,2,3,4],[1,2,3,4]); \<open>main\<close> passes exactly that series to the regression and prints the
  slope and the intercept it returns; the regression of the specification gives slope 1
  and intercept 0, and the run with it is the trace below: the verdict is GROWTH_DETECTED
  and the run ends normally, with exit code 0.
\<close>

theorem end_to_end_scenario_B:
  assumes "fs ''raw_output.txt'' = Some ''1,1\<newline>2,2\<newline>3,3\<newline>4,4\<newline>''"
  shows "parse_data fs ''raw_output.txt'' = Inr ([1, 2, 3, 4], [1, 2, 3, 4])
    \<and> spec_linregress [1, 2, 3, 4] [1, 2, 3, 4] = Inr (Float 1, Float 0)
    \<and> main spec_linregress fs =
        ([Print (Str ''Parsing data...''), Print (Str ''Found 4 data points.''),
          Figure, PlotSeries [1, 2, 3, 4] [1, 2, 3, 4], Scatter [1, 2, 3, 4] [1, 2, 3, 4],
          Regress [1, 2, 3, 4] [1, 2, 3, 4],
          Print (StrFloat ''Slope: '' (Float 1)),
          Print (StrFloat ''Intercept: '' (Float 0)),
          PlotTrend [1, 2, 3, 4] [Float 1, Float 2, Float 3, Float 4] (Float 1),
          Title ''Stability of Slack Variable u (Recursion Error)'',
          Xlabel ''Recursion Step'', Ylabel ''Hamming Weight'', Legend, Grid,
          PltText 2 5 ''WARNING: ERROR GROWTH DETECTED'' ''red'',
          Print (Str ''WARNING: ERROR GROWTH DETECTED''),
          Savefig ''error_stability_proof.png'',
          Print (Str ''Saved chart to error_stability_proof.png'')],
         Returned)
    \<and> verdicts (fst (main spec_linregress fs)) = [GROWTH_DETECTED]
    \<and> (case linregress [1, 2, 3, 4] [1, 2, 3, 4] of
          Inl e \<Rightarrow>
            main linregress fs =
              ([Print (Str ''Parsing data...''), Print (Str ''Found 4 data points.''),
                Figure, PlotSeries [1, 2, 3, 4] [1, 2, 3, 4], Scatter [1, 2, 3, 4] [1, 2, 3, 4],
                Regress [1, 2, 3, 4] [1, 2, 3, 4]],
               Uncaught e)
        | Inr (slope, intercept) \<Rightarrow>
            take 8 (fst (main linregress fs)) =
              [Print (Str ''Parsing data...''), Print (Str ''Found 4 data points.''),
               Figure, PlotSeries [1, 2, 3, 4] [1, 2, 3, 4], Scatter [1, 2, 3, 4] [1, 2, 3, 4],
               Regress [1, 2, 3, 4] [1, 2, 3, 4],
               Print (StrFloat ''Slope: '' slope),
               Print (StrFloat ''Intercept: '' intercept)]
            \<and> verdicts (fst (main linregress fs)) =
                [case slope of
                   Float x \<Rightarrow> (if \<bar>x\<bar> < 1 / 100 then STABLE else GROWTH_DETECTED)
                 | NaN \<Rightarrow> GROWTH_DETECTED]
            \<and> snd (main linregress fs) = Returned)"
proof -
  have p: "parse_data fs ''raw_output.txt'' = Inr ([1, 2, 3, 4], [1, 2, 3, 4])"
    using assms by (rule file_B_parse)
  have n: "[1, 2, 3, 4 :: int] \<noteq> []"
    by simp
  note m = main_completes [of fs "[1, 2, 3, 4]" "[1, 2, 3, 4]" spec_linregress "Float 1" "Float 0",
      OF p n file_B_fit]
  have a: "main spec_linregress fs =
        ([Print (Str ''Parsing data...''), Print (Str ''Found 4 data points.''),
          Figure, PlotSeries [1, 2, 3, 4] [1, 2, 3, 4], Scatter [1, 2, 3, 4] [1, 2, 3, 4],
          Regress [1, 2, 3, 4] [1, 2, 3, 4],
          Print (StrFloat ''Slope: '' (Float 1)),
          Print (StrFloat ''Intercept: '' (Float 0)),
          PlotTrend [1, 2, 3, 4] [Float 1, Float 2, Float 3, Float 4] (Float 1),
          Title ''Stability of Slack Variable u (Recursion Error)'',
          Xlabel ''Recursion Step'', Ylabel ''Hamming Weight'', Legend, Grid,
          PltText 2 5 ''WARNING: ERROR GROWTH DETECTED'' ''red'',
          Print (Str ''WARNING: ERROR GROWTH DETECTED''),
          Savefig ''error_stability_proof.png'',
          Print (Str ''Saved chart to error_stability_proof.png'')],
         Returned)"
    unfolding m by (simp add: show_nat_4)
  have v: "verdicts (fst (main spec_linregress fs)) = [GROWTH_DETECTED]"
    unfolding a by (simp add: verdicts_def)
  have g: "case linregress [1, 2, 3, 4] [1, 2, 3, 4] of
          Inl e \<Rightarrow>
            main linregress fs =
              ([Print (Str ''Parsing data...''), Print (Str ''Found 4 data points.''),
                Figure, PlotSeries [1, 2, 3, 4] [1, 2, 3, 4], Scatter [1, 2, 3, 4] [1, 2, 3, 4],
                Regress [1, 2, 3, 4] [1, 2, 3, 4]],
               Uncaught e)
        | Inr (slope, intercept) \<Rightarrow>
            take 8 (fst (main linregress fs)) =
              [Print (Str ''Parsing data...''), Print (Str ''Found 4 data points.''),
               Figure, PlotSeries [1, 2, 3, 4] [1, 2, 3, 4], Scatter [1, 2, 3, 4] [1, 2, 3, 4],
               Regress [1, 2, 3, 4] [1, 2, 3, 4],
               Print (StrFloat ''Slope: '' slope),
               Print (StrFloat ''Intercept: '' intercept)]
            \<and> verdicts (fst (main linregress fs)) =
                [case slope of
                   Float x \<Rightarrow> (if \<bar>x\<bar> < 1 / 100 then STABLE else GROWTH_DETECTED)
                 | NaN \<Rightarrow> GROWTH_DETECTED]
            \<and> snd (main linregress fs) = Returned"
  proof (cases "linregress [1, 2, 3, 4] [1, 2, 3, 4]")
    case (Inl e)
    then show ?thesis
      using main_regression_raises [of fs "[1, 2, 3, 4]" "[1, 2, 3, 4]" linregress e, OF p n Inl]
      by (simp add: show_nat_4)
  next
    case (Inr q)
    obtain slope intercept where q: "q = (slope, intercept)" by (cases q)
    have r: "linregress [1, 2, 3, 4] [1, 2, 3, 4] = Inr (slope, intercept)"
      using Inr q by simp
    note k = main_completes [of fs "[1, 2, 3, 4]" "[1, 2, 3, 4]" linregress slope intercept,
        OF p n r]
    show ?thesis
      unfolding r k
      by (simp add: show_nat_4 verdicts_def below_threshold split: pyfloat.split)
  qed
  from p file_B_fit a v g show ?thesis
    by blast
qed

theorem end_to_end_scenario_B_witness:
  "[''raw_output.txt'' \<mapsto> ''1,1\<newline>2,2\<newline>3,3\<newline>4,4\<newline>''] ''raw_output.txt''
      = Some ''1,1\<newline>2,2\<newline>3,3\<newline>4,4\<newline>''
   \<and> parse_data [''raw_output.txt'' \<mapsto> ''1,1\<newline>2,2\<newline>3,3\<newline>4,4\<newline>''] ''raw_output.txt''
      = Inr ([1, 2, 3, 4], [1, 2, 3, 4])
   \<and> verdicts (fst (main spec_linregress [''raw_output.txt'' \<mapsto> ''1,1\<newline>2,2\<newline>3,3\<newline>4,4\<newline>'']))
       = [GROWTH_DETECTED]
   \<and> snd (main spec_linregress [''raw_output.txt'' \<mapsto> ''1,1\<newline>2,2\<newline>3,3\<newline>4,4\<newline>'']) = Returned"
proof -
  let ?fs = "[''raw_output.txt'' \<mapsto> ''1,1\<newline>2,2\<newline>3,3\<newline>4,4\<newline>'']"
  have h: "?fs ''raw_output.txt'' = Some ''1,1\<newline>2,2\<newline>3,3\<newline>4,4\<newline>''"
    by simp
  note t = end_to_end_scenario_B [of ?fs spec_linregress, OF h]
  have a: "parse_data ?fs ''raw_output.txt'' = Inr ([1, 2, 3, 4], [1, 2, 3, 4])"
    using t by (rule conjunct1)
  have b: "verdicts (fst (main spec_linregress ?fs)) = [GROWTH_DETECTED]"
    using t [THEN conjunct2, THEN conjunct2, THEN conjunct2] by (rule conjunct1)
  have "snd (main spec_linregress ?fs) = Returned"
    unfolding t [THEN conjunct2, THEN conjunct2, THEN conjunct1] by simp
  with h a b show ?thesis
    by blast
qed



text \<open>
  C9, as amended. A trimmed line that passes the regular expression splits on the comma into
  exactly two parts, both not empty and made of digits only, and both indexings succeed.
  Each conversion to an integer succeeds when its part has at most 4300 digits and raises
  \<open>ValueError\<close> otherwise. So \<open>parse_data\<close> never raises \<open>IndexError\<close> or the error of an
  invalid literal, and it returns its two lists for every text of an existing file whose
  matching lines keep their digit runs within 4300 digits.
\<close>

theorem guarded_conversion:
  "(re_match pair_pattern (strip raw) \<longrightarrow>
      (\<exists>a b. split_on (CHR '','') (strip raw) = [a, b]
         \<and> a \<noteq> [] \<and> list_all isdecimal a \<and> b \<noteq> [] \<and> list_all isdecimal b
         \<and> py_index [a, b] 0 = Inr a \<and> py_index [a, b] 1 = Inr b
         \<and> py_int a = (if length a \<le> int_max_str_digits then Inr (decimal_value a)
                       else Inl ValueError_int_max_str_digits)
         \<and> py_int b = (if length b \<le> int_max_str_digits then Inr (decimal_value b)
                       else Inl ValueError_int_max_str_digits)))
   \<and> (fs filename = Some txt \<and> list_all digit_runs_within_limit (matching_lines txt) \<longrightarrow>
        (\<exists>steps weights. parse_data fs filename = Inr (steps, weights)))
   \<and> parse_data fs filename \<noteq> Inl IndexError
   \<and> parse_data fs filename \<noteq> Inl ValueError_int_literal"
proof -
  have line: "\<exists>a b. split_on (CHR '','') (strip raw) = [a, b]
         \<and> a \<noteq> [] \<and> list_all isdecimal a \<and> b \<noteq> [] \<and> list_all isdecimal b
         \<and> py_index [a, b] 0 = Inr a \<and> py_index [a, b] 1 = Inr b
         \<and> py_int a = (if length a \<le> int_max_str_digits then Inr (decimal_value a)
                       else Inl ValueError_int_max_str_digits)
         \<and> py_int b = (if length b \<le> int_max_str_digits then Inr (decimal_value b)
                       else Inl ValueError_int_max_str_digits)"
    if "re_match pair_pattern (strip raw)"
  proof -
    from that have "digits_comma_digits (strip raw)"
      by (simp add: re_match_strip)
    from split_matching_line [OF this] show ?thesis
      by (simp add: py_int_decimal py_index_def)
  qed
  have whole: "\<exists>steps weights. parse_data fs filename = Inr (steps, weights)"
    if "fs filename = Some txt \<and> list_all digit_runs_within_limit (matching_lines txt)"
    using that parse_data_eq [of fs filename "txt"] by simp
  have "parse_data fs filename \<noteq> Inl IndexError"
    "parse_data fs filename \<noteq> Inl ValueError_int_literal"
    using parse_data_raised [of fs filename] by auto
  then show ?thesis
    using line whole by blast
qed

theorem guarded_conversion_witness:
  "re_match pair_pattern (strip '' 12,7\<newline>'')
   \<and> split_on (CHR '','') (strip '' 12,7\<newline>'') = [''12'', ''7'']
   \<and> py_int ''12'' = Inr 12 \<and> py_int ''7'' = Inr 7
   \<and> [''raw_output.txt'' \<mapsto> ''x\<newline> 12,7\<newline>''] ''raw_output.txt'' = Some ''x\<newline> 12,7\<newline>''
   \<and> list_all digit_runs_within_limit (matching_lines ''x\<newline> 12,7\<newline>'')
   \<and> (\<exists>steps weights. parse_data [''raw_output.txt'' \<mapsto> ''x\<newline> 12,7\<newline>''] ''raw_output.txt''
         = Inr (steps, weights))"
proof -
  let ?txt = "''x\<newline> 12,7\<newline>''"
  let ?fs = "[''raw_output.txt'' \<mapsto> ?txt]"
  have h1: "re_match pair_pattern (strip '' 12,7\<newline>'')"
    by code_simp
  have h2: "?fs ''raw_output.txt'' = Some ?txt"
    by simp
  have m: "matching_lines ?txt = [''12,7'']"
    by code_simp
  have h3: "list_all digit_runs_within_limit (matching_lines ?txt)"
    unfolding m by (simp add: digit_runs_within_limit_def int_max_str_digits_def isdecimal_def)
  have e: "split_on (CHR '','') (strip '' 12,7\<newline>'') = [''12'', ''7'']"
    by code_simp
  have d: "decimal_value ''12'' = 12" "decimal_value ''7'' = 7"
    by code_simp+
  note g = guarded_conversion [of " '' 12,7\<newline>''" ?fs "''raw_output.txt''" ?txt]
  from g h1 have "\<exists>a b. split_on (CHR '','') (strip '' 12,7\<newline>'') = [a, b]
         \<and> py_int a = (if length a \<le> int_max_str_digits then Inr (decimal_value a)
                       else Inl ValueError_int_max_str_digits)
         \<and> py_int b = (if length b \<le> int_max_str_digits then Inr (decimal_value b)
                       else Inl ValueError_int_max_str_digits)"
    by blast
  then have i: "py_int ''12'' = Inr 12 \<and> py_int ''7'' = Inr 7"
    unfolding e using d by (simp add: int_max_str_digits_def)
  from g h2 h3
  have "\<exists>steps weights. parse_data ?fs ''raw_output.txt'' = Inr (steps, weights)"
    by blast
  with h1 h2 h3 e i show ?thesis
    by blast
qed

text \<open>
  The line made of the digit 1, a comma and 4301 times the digit 7 passes the guard and
  splits into two parts of digits; the conversion of the second part raises, and so does
  \<open>parse_data\<close> on the file that holds this line.
\<close>

theorem guarded_conversion_counterexample:
  "re_match pair_pattern (strip (''1,'' @ replicate 4301 (CHR ''7'')))
   \<and> split_on (CHR '','') (strip (''1,'' @ replicate 4301 (CHR ''7'')))
        = [''1'', replicate 4301 (CHR ''7'')]
   \<and> py_int ''1'' = Inr 1
   \<and> py_int (replicate 4301 (CHR ''7'')) = Inl ValueError_int_max_str_digits
   \<and> parse_data [''raw_output.txt'' \<mapsto> ''1,'' @ replicate 4301 (CHR ''7'')] ''raw_output.txt''
        = Inl ValueError_int_max_str_digits"
proof -
  let ?b = "replicate 4301 (CHR ''7'')"
  have a: "''1'' \<noteq> []" "list_all isdecimal ''1''"
    by (simp_all add: isdecimal_def)
  have b: "?b \<noteq> []" "list_all isdecimal ?b"
    by (simp_all add: list_all_iff isdecimal_def)
  have l: "''1,'' @ ?b = ''1'' @ CHR '','' # ?b"
    by simp
  have s: "strip (''1,'' @ ?b) = ''1'' @ CHR '','' # ?b"
    unfolding l by (rule pair_line(4) [OF a b])
  have m: "re_match pair_pattern (strip (''1,'' @ ?b))"
    unfolding s re_match_strip [of "''1'' @ CHR '','' # ?b", unfolded pair_line(4) [OF a b]]
    by (rule pair_line(1) [OF a b])
  have sp: "split_on (CHR '','') (strip (''1,'' @ ?b)) = [''1'', ?b]"
    unfolding s using split_on_once [of "CHR '',''" "''1''" ?b] digits_no_comma a(2) b(2)
    by blast
  have i1: "py_int ''1'' = Inr 1"
    by code_simp
  have i2: "py_int ?b = Inl ValueError_int_max_str_digits"
    using py_int_decimal [OF b] by (simp add: int_max_str_digits_def)
  have f: "[''raw_output.txt'' \<mapsto> ''1'' @ CHR '','' # ?b] ''raw_output.txt''
      = Some (''1'' @ CHR '','' # ?b)"
    by simp
  have p: "parse_data [''raw_output.txt'' \<mapsto> ''1,'' @ ?b] ''raw_output.txt''
        = Inl ValueError_int_max_str_digits"
    unfolding l
    using pair_line_file(2) [of "''1''" ?b "[''raw_output.txt'' \<mapsto> ''1'' @ CHR '','' # ?b]"
        "''raw_output.txt''", OF a b f]
    by (simp add: int_max_str_digits_def)
  from m sp i1 i2 p show ?thesis
    by blast
qed

text \<open>
  C10. Whenever \<open>main\<close> passes the check that steps is not empty, weights is not empty
  either, the two lists being as long as each other; \<^verbatim>\<open>max(weights)\<close> is then defined, the
  hypothesis check raises nothing for any slope, and the run ends normally once the
  regression has returned.
\<close>

theorem max_weights_defined:
  assumes "parse_data fs ''raw_output.txt'' = Inr (steps, weights)" and "steps \<noteq> []"
  shows "weights \<noteq> [] \<and> length weights = length steps
    \<and> py_max weights = Inr (Max (set weights))
    \<and> (\<exists>evs. hypothesis_check steps weights slope = Inr evs)
    \<and> (\<forall>s i. linregress steps weights = Inr (s, i) \<longrightarrow> snd (main linregress fs) = Returned)"
proof -
  have ne: "weights \<noteq> []"
    using assms by (rule parse_data_weights_nonempty)
  have "\<forall>s i. linregress steps weights = Inr (s, i) \<longrightarrow> snd (main linregress fs) = Returned"
    using main_completes [of fs steps weights linregress, OF assms] by simp
  then show ?thesis
    using ne parse_data_lengths [OF assms(1)]
    by (simp add: py_max_nonempty hypothesis_check_nonempty)
qed

theorem max_weights_defined_witness:
  "parse_data [''raw_output.txt'' \<mapsto> ''3,9\<newline>x\<newline>4,2''] ''raw_output.txt'' = Inr ([3, 4], [9, 2])
   \<and> [3, 4 :: int] \<noteq> [] \<and> [9, 2 :: int] \<noteq> [] \<and> py_max [9, 2] = Inr 9
   \<and> spec_linregress [3, 4] [9, 2] = Inr (Float (- 7), Float 30)
   \<and> snd (main spec_linregress [''raw_output.txt'' \<mapsto> ''3,9\<newline>x\<newline>4,2'']) = Returned"
proof -
  let ?fs = "[''raw_output.txt'' \<mapsto> ''3,9\<newline>x\<newline>4,2'']"
  have p: "parse_data ?fs ''raw_output.txt'' = Inr ([3, 4], [9, 2])"
    by code_simp
  have n: "[3, 4 :: int] \<noteq> []"
    by simp
  have r: "spec_linregress [3, 4] [9, 2] = Inr (Float (- 7), Float 30)"
    by (simp add: spec_linregress_def covariance_def mean_def)
  from max_weights_defined [of ?fs "[3, 4]" "[9, 2]" "Float 0" spec_linregress, OF p n] r
  have "py_max [9, 2] = Inr 9 \<and> snd (main spec_linregress ?fs) = Returned"
    by simp
  with p r show ?thesis by simp
qed

end
